theory Spec2Isabelle
  imports Complex_Main "HOL-Library.Monad_Syntax"
begin

section \<open>Values of unknown shape\<close>

text \<open>
  The validators take a value of TypeScript type \<open>unknown\<close> and the adapters write
  values of type \<open>Record<string, unknown>\<close>. Such values are modelled as JSON-like
  trees, with \<open>undefined\<close> as a value of its own, because the schemas tell
  \<open>undefined\<close> (accepted by \<open>.optional()\<close>) from \<open>null\<close> (rejected by it).
  A number is a rational, one of the two infinities, or NaN; no arithmetic is done on
  the numbers of a validated value, they are only compared with constants.
  An object is the list of its own properties in insertion order; reading a property
  that the object does not have gives \<open>undefined\<close>. Values that are not data
  (functions, dates, class instances) are outside the model.
\<close>

datatype jsnum = Fin rat | PosInf | NegInf | NaN

datatype json =
    JUndefined
  | JNull
  | JBool bool
  | JNum jsnum
  | JStr string
  | JArr "json list"
  | JObj "(string \<times> json) list"

definition js_get :: "json \<Rightarrow> string \<Rightarrow> json" where
  "js_get j k = (case j of
       JObj kvs \<Rightarrow> (case map_of kvs k of None \<Rightarrow> JUndefined | Some v \<Rightarrow> v)
     | _ \<Rightarrow> JUndefined)"

text \<open>Truthiness of an optional string (\<open>s || ...\<close>, \<open>s && ...\<close>, \<open>s ? ... : ...\<close>):
  \<open>undefined\<close> and the empty string are falsy.\<close>

fun truthy :: "string option \<Rightarrow> bool" where
  "truthy None = False"
| "truthy (Some s) = (s \<noteq> [])"

text \<open>\<open>a || b\<close> on strings, with \<open>a\<close> optional.\<close>

definition or_else :: "string option \<Rightarrow> string \<Rightarrow> string" where
  "or_else a b = (case a of None \<Rightarrow> b | Some s \<Rightarrow> if s = [] then b else s)"

text \<open>\<open>a || b\<close> with \<open>a\<close> a string that is always present, and \<open>a ?? b\<close> on
  optional numbers and options with defaults (\<open>const { verbose = false } = options\<close>).\<close>

definition or_str :: "string \<Rightarrow> string \<Rightarrow> string" where
  "or_str a b = (if a = [] then b else a)"

definition or_num :: "jsnum option \<Rightarrow> jsnum \<Rightarrow> jsnum" where
  "or_num a b = (case a of None \<Rightarrow> b | Some n \<Rightarrow> n)"

definition or_bool :: "bool option \<Rightarrow> bool \<Rightarrow> bool" where
  "or_bool a b = (case a of None \<Rightarrow> b | Some v \<Rightarrow> v)"

text \<open>The decimal numeral of a natural number, as a template literal prints it.\<close>

function string_of_nat :: "nat \<Rightarrow> string" where
  "string_of_nat n =
     (if n < 10 then [''0123456789'' ! n]
      else string_of_nat (n div 10) @ [''0123456789'' ! (n mod 10)])"
  by pat_completeness auto
termination
  by (relation "measure (\<lambda>n. n)") auto

declare string_of_nat.simps [simp del]


section \<open>The data model (src/types/agent.ts, src/types/workflow.ts)\<close>

datatype AIProvider =
  Openai | Anthropic | Google | Mistral | Cohere | AzureOpenai | Bedrock | Custom

datatype MemoryType = Buffer | Summary | Vector | NoMemory

record MemoryConfig =
  mem_type :: MemoryType
  mem_maxMessages :: "jsnum option"
  mem_persistent :: "bool option"

record Tool =
  tool_id :: string
  tool_name :: string
  tool_description :: string
  tool_parameters :: "(string \<times> json) list option"
  tool_requiresAuth :: "bool option"

record ModelParameters =
  temperature :: "jsnum option"
  maxTokens :: "jsnum option"
  topP :: "jsnum option"
  frequencyPenalty :: "jsnum option"
  presencePenalty :: "jsnum option"
  stopSequences :: "string list option"

record AgentConfig =
  agent_id :: string
  agent_name :: string
  agent_description :: "string option"
  agent_provider :: AIProvider
  agent_model :: string
  agent_systemPrompt :: "string option"
  agent_parameters :: "ModelParameters option"
  agent_tools :: "Tool list option"
  agent_memory :: "MemoryConfig option"
  agent_connections :: "string list option"
  agent_metadata :: "(string \<times> json) list option"

record NodePosition =
  pos_x :: jsnum
  pos_y :: jsnum

record WorkflowConnection =
  conn_id :: string
  sourceId :: string
  targetId :: string
  sourceHandle :: "string option"
  targetHandle :: "string option"
  conn_condition :: "string option"
  conn_label :: "string option"

datatype NodeType = AgentNode | TriggerNode | ConditionNode | LoopNode | EndNode

record WorkflowNode =
  node_id :: string
  node_type :: NodeType
  node_agentId :: "string option"
  node_agent :: "AgentConfig option"
  node_position :: "NodePosition option"
  node_metadata :: "(string \<times> json) list option"

datatype TriggerType = Manual | Schedule | Webhook | Event

text \<open>The trigger's \<open>config\<close> has three known optional keys and an index signature
  (\<open>[key: string]: unknown\<close>); \<open>cfg_rest\<close> holds the properties under other keys
  that the schema keeps.\<close>

record TriggerConfig =
  cfg_schedule :: "string option"
  cfg_webhookUrl :: "string option"
  cfg_eventName :: "string option"
  cfg_rest :: "(string \<times> json) list"

record WorkflowTrigger =
  trig_type :: TriggerType
  trig_config :: "TriggerConfig option"

datatype VariableType = VString | VNumber | VBoolean | VObject | VArray

record WorkflowVariable =
  var_name :: string
  var_type :: VariableType
  var_defaultValue :: "json option"
  var_description :: "string option"
  var_required :: "bool option"

record WorkflowConfig =
  wf_id :: string
  wf_name :: string
  wf_description :: "string option"
  wf_version :: "string option"
  wf_nodes :: "WorkflowNode list"
  wf_connections :: "WorkflowConnection list"
  wf_trigger :: "WorkflowTrigger option"
  wf_variables :: "WorkflowVariable list option"
  wf_tags :: "string list option"
  wf_metadata :: "(string \<times> json) list option"


section \<open>Graph analysis (src/utils/workflow-validator.ts)\<close>

text \<open>
  A JavaScript \<open>Map\<close> or \<open>Set\<close> is iterated in insertion order, and
  \<open>Map.set\<close> on a key that is present replaces the value where the key stands.
  Both are lists here: a map is a list of key/value pairs with the first pair of a key
  being the binding (\<open>map_of\<close> reads it), a set is a list without repetition.
\<close>

fun map_set :: "'k \<Rightarrow> 'v \<Rightarrow> ('k \<times> 'v) list \<Rightarrow> ('k \<times> 'v) list" where
  "map_set k v [] = [(k, v)]"
| "map_set k v ((k', v') # m) = (if k' = k then (k, v) # m else (k', v') # map_set k v m)"

definition set_add :: "'a \<Rightarrow> 'a list \<Rightarrow> 'a list" where
  "set_add x s = (if x \<in> set s then s else s @ [x])"

text \<open>The adjacency structure \<open>Map<string, Set<string>>\<close>: one empty set per node,
  then \<open>graph.get(conn.sourceId)?.add(conn.targetId)\<close> per connection, which does
  nothing when the source is no key of the map.\<close>

type_synonym graph = "(string \<times> string list) list"

definition add_edge :: "string \<Rightarrow> string \<Rightarrow> graph \<Rightarrow> graph" where
  "add_edge src tgt g = (case map_of g src of None \<Rightarrow> g | Some s \<Rightarrow> map_set src (set_add tgt s) g)"

definition neighbors :: "graph \<Rightarrow> string \<Rightarrow> string list" where
  "neighbors g nodeId = (case map_of g nodeId of None \<Rightarrow> [] | Some s \<Rightarrow> s)"

definition buildGraph :: "WorkflowConfig \<Rightarrow> graph" where
  "buildGraph w =
     fold (\<lambda>conn. add_edge (sourceId conn) (targetId conn)) (wf_connections w)
       (fold (\<lambda>node. map_set (node_id node) []) (wf_nodes w) [])"

type_synonym dfs_state = "string list \<times> string list"

text \<open>The ids a graph mentions; the depth-first search never visits another id except
  the one it is started from.\<close>

definition graph_ids :: "graph \<Rightarrow> string set" where
  "graph_ids g = fst ` set g \<union> (\<Union>(k, s) \<in> set g. set s)"

lemma neighbors_ids: "set (neighbors g n) \<subseteq> graph_ids g"
proof (cases "map_of g n")
  case None
  then show ?thesis by (simp add: neighbors_def)
next
  case (Some s)
  then have "(n, s) \<in> set g" by (rule map_of_SomeD)
  then have "set s \<subseteq> graph_ids g" by (auto simp: graph_ids_def)
  with Some show ?thesis by (simp add: neighbors_def)
qed

lemma finite_graph_ids: "finite (graph_ids g)"
  by (auto simp: graph_ids_def)

text \<open>
  The inner function \<open>hasCycle\<close> of \<open>detectWorkflowCycles\<close> with the two sets it
  updates, \<open>visited\<close> and \<open>recursionStack\<close>, passed in and returned;
  \<open>hasCycle_neighbors\<close> is its \<open>for (const neighbor of neighbors)\<close> loop. When the
  search returns true the caller returns at once, so the state returned with true is
  never read.
\<close>

function hasCycle :: "graph \<Rightarrow> string \<Rightarrow> dfs_state \<Rightarrow> bool \<times> dfs_state"
  and hasCycle_neighbors :: "graph \<Rightarrow> string list \<Rightarrow> dfs_state \<Rightarrow> bool \<times> dfs_state"
where
  "hasCycle g nodeId (visited, recursionStack) =
     (case hasCycle_neighbors g (neighbors g nodeId)
             (set_add nodeId visited, set_add nodeId recursionStack) of
        (found, (visited', recursionStack')) \<Rightarrow>
          if found then (True, (visited', recursionStack'))
          else (False, (visited', removeAll nodeId recursionStack')))"
| "hasCycle_neighbors g [] s = (False, s)"
| "hasCycle_neighbors g (neighbor # rest) (visited, recursionStack) =
     (if neighbor \<notin> set visited then
        (case hasCycle g neighbor (visited, recursionStack) of
           (found, s') \<Rightarrow> if found then (True, s') else hasCycle_neighbors g rest s')
      else if neighbor \<in> set recursionStack then (True, (visited, recursionStack))
      else hasCycle_neighbors g rest (visited, recursionStack))"
  by pat_completeness auto
termination
proof -
  have grows:
    "hasCycle_hasCycle_neighbors_dom (Inl (g, n, s)) \<Longrightarrow>
       set (fst s) \<subseteq> set (fst (snd (hasCycle g n s)))"
    "hasCycle_hasCycle_neighbors_dom (Inr (g, ms, s)) \<Longrightarrow>
       set (fst s) \<subseteq> set (fst (snd (hasCycle_neighbors g ms s)))"
    for g n ms s
  proof (induction g n s and g ms s rule: hasCycle_hasCycle_neighbors.pinduct)
    case (1 g nodeId visited recursionStack)
    then show ?case
      by (auto simp: hasCycle.psimps set_add_def split: prod.splits if_splits)
  next
    case (2 g s)
    then show ?case by (simp add: hasCycle_neighbors.psimps)
  next
    case (3 g neighbor rest visited recursionStack)
    show ?case
    proof (cases "neighbor \<in> set visited")
      case True
      with 3 show ?thesis
        by (auto simp: hasCycle_neighbors.psimps)
    next
      case False
      obtain found s' where r: "hasCycle g neighbor (visited, recursionStack) = (found, s')"
        by (cases "hasCycle g neighbor (visited, recursionStack)") auto
      have m1: "set visited \<subseteq> set (fst s')"
        using 3(2)[OF False] r by simp
      show ?thesis
      proof (cases found)
        case True
        with False r m1 3(1) show ?thesis by (simp add: hasCycle_neighbors.psimps)
      next
        case nf: False
        have "set (fst s') \<subseteq> set (fst (snd (hasCycle_neighbors g rest s')))"
          using 3(3)[OF False r[symmetric] nf] .
        with m1 False r nf 3(1) show ?thesis by (simp add: hasCycle_neighbors.psimps)
      qed
    qed
  qed
  show ?thesis
  proof (relation "inv_image (less_than <*lex*> less_than <*lex*> less_than)
      (\<lambda>x. case x of
         Inl (g, n, (vis, stk)) \<Rightarrow> (card (graph_ids g - insert n (set vis)), 1::nat, 0::nat)
       | Inr (g, ms, (vis, stk)) \<Rightarrow>
           (card ((graph_ids g \<union> set ms) - set vis), 0, length ms))", goal_cases)
    case 1
    then show ?case by (intro wf_inv_image wf_lex_prod wf_less_than)
  next
    case (2 g nodeId visited recursionStack)
    have "graph_ids g \<union> set (neighbors g nodeId) = graph_ids g"
      using neighbors_ids[of g nodeId] by auto
    then show ?case by (simp add: set_add_def insert_absorb)
  next
    case (3 g neighbor rest visited recursionStack)
    have "graph_ids g - insert neighbor (set visited)
        \<subset> (graph_ids g \<union> set (neighbor # rest)) - set visited"
      using 3 by auto
    then have "card (graph_ids g - insert neighbor (set visited))
        < card ((graph_ids g \<union> set (neighbor # rest)) - set visited)"
      by (intro psubset_card_mono) (auto simp: finite_graph_ids)
    then show ?case by simp
  next
    case (4 g neighbor rest visited recursionStack found s')
    have "set visited \<subseteq> set (fst s')"
      using grows(1)[OF 4(4)] 4(2)[symmetric] by simp
    then have "(graph_ids g \<union> set rest) - set (fst s')
        \<subseteq> (graph_ids g \<union> set (neighbor # rest)) - set visited"
      by auto
    then have "card ((graph_ids g \<union> set rest) - set (fst s'))
        \<le> card ((graph_ids g \<union> set (neighbor # rest)) - set visited)"
      by (intro card_mono) (auto simp: finite_graph_ids)
    then show ?case by (cases s') auto
  next
    case (5 g neighbor rest visited recursionStack)
    have "(graph_ids g \<union> set rest) - set visited
        \<subseteq> (graph_ids g \<union> set (neighbor # rest)) - set visited"
      by auto
    then have "card ((graph_ids g \<union> set rest) - set visited)
        \<le> card ((graph_ids g \<union> set (neighbor # rest)) - set visited)"
      by (intro card_mono) (auto simp: finite_graph_ids)
    then show ?case by auto
  qed
qed

text \<open>The loop \<open>for (const nodeId of graph.keys())\<close> of \<open>detectWorkflowCycles\<close>.\<close>

fun detect_from :: "graph \<Rightarrow> string list \<Rightarrow> dfs_state \<Rightarrow> bool" where
  "detect_from g [] s = False"
| "detect_from g (nodeId # keys) (visited, recursionStack) =
     (if nodeId \<notin> set visited then
        (case hasCycle g nodeId (visited, recursionStack) of
           (found, s') \<Rightarrow> if found then True else detect_from g keys s')
      else detect_from g keys (visited, recursionStack))"

definition detectWorkflowCycles :: "WorkflowConfig \<Rightarrow> bool" where
  "detectWorkflowCycles workflow =
     (let graph = buildGraph workflow in detect_from graph (map fst graph) ([], []))"

text \<open>
  \<open>getWorkflowTopologicalOrder\<close>: \<open>init_node\<close> and \<open>count_connection\<close> are the
  bodies of the two \<open>forEach\<close> loops that fill \<open>graph\<close> and \<open>inDegree\<close>
  (\<open>inDegree.set\<close> adds a key for a target that is no node), \<open>release\<close> is the body
  of \<open>neighbors.forEach\<close> and \<open>kahn\<close> the \<open>while (queue.length > 0)\<close> loop. The
  measure \<open>pending\<close> shows that the loop ends: a neighbour is pushed only when its
  in-degree falls from one to zero.
\<close>

type_synonym degrees = "(string \<times> int) list"

definition degree_or_0 :: "degrees \<Rightarrow> string \<Rightarrow> int" where
  "degree_or_0 inDegree k = (case map_of inDegree k of None \<Rightarrow> 0 | Some d \<Rightarrow> d)"

definition init_node :: "WorkflowNode \<Rightarrow> graph \<times> degrees \<Rightarrow> graph \<times> degrees" where
  "init_node node = (\<lambda>(graph, inDegree).
     (map_set (node_id node) [] graph, map_set (node_id node) 0 inDegree))"

definition count_connection :: "WorkflowConnection \<Rightarrow> graph \<times> degrees \<Rightarrow> graph \<times> degrees" where
  "count_connection conn = (\<lambda>(graph, inDegree).
     (add_edge (sourceId conn) (targetId conn) graph,
      map_set (targetId conn) (degree_or_0 inDegree (targetId conn) + 1) inDegree))"

definition release :: "string \<Rightarrow> degrees \<times> string list \<Rightarrow> degrees \<times> string list" where
  "release neighbor = (\<lambda>(inDegree, queue).
     (let newDegree = degree_or_0 inDegree neighbor - 1
      in (map_set neighbor newDegree inDegree,
          if newDegree = 0 then queue @ [neighbor] else queue)))"

definition pending :: "degrees \<times> string list \<Rightarrow> nat" where
  "pending = (\<lambda>(inDegree, queue). (\<Sum>(k, d)\<leftarrow>inDegree. nat d) + length queue)"

lemma sum_map_set_le:
  "v \<le> degree_or_0 m k \<or> v \<le> 0 \<Longrightarrow> (\<Sum>(k, d)\<leftarrow>map_set k v m. nat d) \<le> (\<Sum>(k, d)\<leftarrow>m. nat d)"
  by (induction m) (auto simp: degree_or_0_def)

lemma sum_map_set_less:
  "0 < degree_or_0 m k \<Longrightarrow> v < degree_or_0 m k \<Longrightarrow> (\<Sum>(k, d)\<leftarrow>map_set k v m. nat d) < (\<Sum>(k, d)\<leftarrow>m. nat d)"
  by (induction m) (auto simp: degree_or_0_def)

lemma pending_release: "pending (release neighbor s) \<le> pending s"
proof (cases s)
  case (Pair inDegree queue)
  show ?thesis
  proof (cases "degree_or_0 inDegree neighbor = 1")
    case True
    then have "(\<Sum>(k, d)\<leftarrow>map_set neighbor 0 inDegree. nat d) < (\<Sum>(k, d)\<leftarrow>inDegree. nat d)"
      by (intro sum_map_set_less) auto
    with True Pair show ?thesis by (simp add: pending_def release_def)
  next
    case False
    have "(\<Sum>(k, d)\<leftarrow>map_set neighbor (degree_or_0 inDegree neighbor - 1) inDegree. nat d) \<le> (\<Sum>(k, d)\<leftarrow>inDegree. nat d)"
      by (intro sum_map_set_le) auto
    with False Pair show ?thesis by (simp add: pending_def release_def Let_def)
  qed
qed

lemma pending_fold_release: "pending (fold release ns s) \<le> pending s"
proof (induction ns arbitrary: s)
  case Nil
  show ?case by simp
next
  case (Cons n ns)
  have "pending (fold release ns (release n s)) \<le> pending (release n s)" by (rule Cons.IH)
  also have "\<dots> \<le> pending s" by (rule pending_release)
  finally show ?case by simp
qed

function kahn :: "graph \<Rightarrow> degrees \<Rightarrow> string list \<Rightarrow> string list \<Rightarrow> string list" where
  "kahn graph inDegree [] result = result"
| "kahn graph inDegree (nodeId # queue) result =
     (case fold release (neighbors graph nodeId) (inDegree, queue) of
        (inDegree', queue') \<Rightarrow> kahn graph inDegree' queue' (result @ [nodeId]))"
  by pat_completeness auto
termination
proof (relation "measure (\<lambda>(graph, inDegree, queue, result). pending (inDegree, queue))", goal_cases)
  case 1
  show ?case by simp
next
  case (2 graph inDegree nodeId queue result inDegree' queue')
  have "pending (fold release (neighbors graph nodeId) (inDegree, queue)) \<le> pending (inDegree, queue)"
    by (rule pending_fold_release)
  also have "\<dots> < pending (inDegree, nodeId # queue)" by (simp add: pending_def)
  finally show ?case using 2[symmetric] by simp
qed

definition getWorkflowTopologicalOrder :: "WorkflowConfig \<Rightarrow> string list option" where
  "getWorkflowTopologicalOrder workflow =
     (if detectWorkflowCycles workflow then None
      else
        (case fold count_connection (wf_connections workflow)
                (fold init_node (wf_nodes workflow) ([], [])) of
           (graph, inDegree) \<Rightarrow>
             (let queue = map fst (filter (\<lambda>(nodeId, degree). degree = 0) inDegree);
                  result = kahn graph inDegree queue []
              in if length result = length (wf_nodes workflow) then Some result else None)))"

definition findDisconnectedNodes :: "WorkflowConfig \<Rightarrow> string list" where
  "findDisconnectedNodes workflow =
     (let connectedNodes = concat (map (\<lambda>conn. [sourceId conn, targetId conn]) (wf_connections workflow))
      in filter (\<lambda>i. i \<notin> set connectedNodes) (map node_id (wf_nodes workflow)))"


section \<open>Schemas (src/schemas/agent.schema.ts, src/schemas/workflow.schema.ts)\<close>

text \<open>
  The schemas are built from the combinators of the zod library, which is not part of
  the repository. A schema is modelled by its \<open>parse\<close>: a function from an unknown
  value to the parsed value, with \<open>None\<close> where \<open>parse\<close> throws a \<open>ZodError\<close>.
  The issues carried by the error are not modelled. The combinators follow zod 3:
  \<^item> \<open>z.string()\<close>, \<open>z.number()\<close>, \<open>z.boolean()\<close> accept values of that type only
    (\<open>z.number()\<close> rejects NaN and accepts the infinities); \<open>.min(1)\<close> on a string
    asks for a non-empty string; \<open>.min\<close>, \<open>.max\<close>, \<open>.int()\<close>, \<open>.positive()\<close> on a
    number are the comparisons they name;
  \<^item> \<open>.optional()\<close> accepts \<open>undefined\<close> (also a missing property) and else what the
    inner schema accepts;
  \<^item> \<open>z.array(s)\<close> parses every element with \<open>s\<close>;
  \<^item> \<open>z.object({...})\<close> accepts an object, parses each listed property and drops
    every other property; with \<open>.passthrough()\<close> the other properties are kept,
    except a property named \<open>__proto__\<close> and the properties whose value is
    \<open>undefined\<close>;
  \<^item> \<open>z.record(z.unknown())\<close> accepts an object and keeps its properties, except a
    property named \<open>__proto__\<close>;
  \<^item> \<open>.refine(p)\<close> adds the check \<open>p\<close> on the parsed value.
  \<open>z.string().url()\<close> accepts the strings that the URL constructor of the platform
  accepts; that predicate is the parameter \<open>isUrl\<close>.
\<close>

type_synonym 'a schema = "json \<Rightarrow> 'a option"

definition z_string :: "string schema" where
  "z_string j = (case j of JStr s \<Rightarrow> Some s | _ \<Rightarrow> None)"

definition z_string_min1 :: "string schema" where
  "z_string_min1 j = (case j of JStr s \<Rightarrow> if 1 \<le> length s then Some s else None | _ \<Rightarrow> None)"

definition z_string_url :: "(string \<Rightarrow> bool) \<Rightarrow> string schema" where
  "z_string_url isUrl j = (case j of JStr s \<Rightarrow> if isUrl s then Some s else None | _ \<Rightarrow> None)"

definition z_boolean :: "bool schema" where
  "z_boolean j = (case j of JBool b \<Rightarrow> Some b | _ \<Rightarrow> None)"

definition z_number :: "jsnum schema" where
  "z_number j = (case j of JNum n \<Rightarrow> if n = NaN then None else Some n | _ \<Rightarrow> None)"

fun num_ge :: "jsnum \<Rightarrow> rat \<Rightarrow> bool" where
  "num_ge (Fin r) c = (c \<le> r)"
| "num_ge PosInf c = True"
| "num_ge NegInf c = False"
| "num_ge NaN c = False"

fun num_le :: "jsnum \<Rightarrow> rat \<Rightarrow> bool" where
  "num_le (Fin r) c = (r \<le> c)"
| "num_le PosInf c = False"
| "num_le NegInf c = True"
| "num_le NaN c = False"

fun num_gt :: "jsnum \<Rightarrow> rat \<Rightarrow> bool" where
  "num_gt (Fin r) c = (c < r)"
| "num_gt PosInf c = True"
| "num_gt NegInf c = False"
| "num_gt NaN c = False"

fun isInteger :: "jsnum \<Rightarrow> bool" where
  "isInteger (Fin r) = (r \<in> \<int>)"
| "isInteger PosInf = False"
| "isInteger NegInf = False"
| "isInteger NaN = False"

definition z_number_min_max :: "rat \<Rightarrow> rat \<Rightarrow> jsnum schema" where
  "z_number_min_max lo hi j =
     (case z_number j of None \<Rightarrow> None
      | Some n \<Rightarrow> if num_ge n lo \<and> num_le n hi then Some n else None)"

definition z_number_int_positive :: "jsnum schema" where
  "z_number_int_positive j =
     (case z_number j of None \<Rightarrow> None
      | Some n \<Rightarrow> if isInteger n \<and> num_gt n 0 then Some n else None)"

definition z_unknown :: "json schema" where
  "z_unknown j = Some j"

definition z_optional :: "'a schema \<Rightarrow> 'a option schema" where
  "z_optional p j = (if j = JUndefined then Some None else map_option Some (p j))"

definition z_array :: "'a schema \<Rightarrow> 'a list schema" where
  "z_array p j = (case j of JArr xs \<Rightarrow> those (map p xs) | _ \<Rightarrow> None)"

definition z_record_unknown :: "(string \<times> json) list schema" where
  "z_record_unknown j =
     (case j of JObj kvs \<Rightarrow> Some (filter (\<lambda>(k, v). k \<noteq> ''__proto__'') kvs) | _ \<Rightarrow> None)"

definition z_enum :: "(string \<times> 'a) list \<Rightarrow> 'a schema" where
  "z_enum table j = (case j of JStr s \<Rightarrow> map_of table s | _ \<Rightarrow> None)"

definition z_object :: "json \<Rightarrow> 'a option \<Rightarrow> 'a option" where
  "z_object j body = (case j of JObj kvs \<Rightarrow> body | _ \<Rightarrow> None)"

definition provider_names :: "(string \<times> AIProvider) list" where
  "provider_names =
     [(''openai'', Openai), (''anthropic'', Anthropic), (''google'', Google),
      (''mistral'', Mistral), (''cohere'', Cohere), (''azure-openai'', AzureOpenai),
      (''bedrock'', Bedrock), (''custom'', Custom)]"

definition AIProviderSchema :: "AIProvider schema" where
  "AIProviderSchema = z_enum provider_names"

definition memory_type_names :: "(string \<times> MemoryType) list" where
  "memory_type_names =
     [(''buffer'', Buffer), (''summary'', Summary), (''vector'', Vector), (''none'', NoMemory)]"

definition MemoryConfigSchema :: "MemoryConfig schema" where
  "MemoryConfigSchema j = z_object j (do {
     t \<leftarrow> z_enum memory_type_names (js_get j ''type'');
     maxMessages \<leftarrow> z_optional z_number_int_positive (js_get j ''maxMessages'');
     persistent \<leftarrow> z_optional z_boolean (js_get j ''persistent'');
     Some \<lparr>mem_type = t, mem_maxMessages = maxMessages, mem_persistent = persistent\<rparr>
   })"

definition ToolSchema :: "Tool schema" where
  "ToolSchema j = z_object j (do {
     i \<leftarrow> z_string_min1 (js_get j ''id'');
     name \<leftarrow> z_string_min1 (js_get j ''name'');
     description \<leftarrow> z_string (js_get j ''description'');
     parameters \<leftarrow> z_optional z_record_unknown (js_get j ''parameters'');
     requiresAuth \<leftarrow> z_optional z_boolean (js_get j ''requiresAuth'');
     Some \<lparr>tool_id = i, tool_name = name, tool_description = description,
           tool_parameters = parameters, tool_requiresAuth = requiresAuth\<rparr>
   })"

definition ModelParametersSchema :: "ModelParameters schema" where
  "ModelParametersSchema j = z_object j (do {
     t \<leftarrow> z_optional (z_number_min_max 0 2) (js_get j ''temperature'');
     m \<leftarrow> z_optional z_number_int_positive (js_get j ''maxTokens'');
     p \<leftarrow> z_optional (z_number_min_max 0 1) (js_get j ''topP'');
     fp \<leftarrow> z_optional (z_number_min_max (- 2) 2) (js_get j ''frequencyPenalty'');
     pp \<leftarrow> z_optional (z_number_min_max (- 2) 2) (js_get j ''presencePenalty'');
     ss \<leftarrow> z_optional (z_array z_string) (js_get j ''stopSequences'');
     Some \<lparr>temperature = t, maxTokens = m, topP = p, frequencyPenalty = fp,
           presencePenalty = pp, stopSequences = ss\<rparr>
   })"

definition AgentConfigSchema :: "AgentConfig schema" where
  "AgentConfigSchema j = z_object j (do {
     i \<leftarrow> z_string_min1 (js_get j ''id'');
     name \<leftarrow> z_string_min1 (js_get j ''name'');
     description \<leftarrow> z_optional z_string (js_get j ''description'');
     provider \<leftarrow> AIProviderSchema (js_get j ''provider'');
     model \<leftarrow> z_string_min1 (js_get j ''model'');
     systemPrompt \<leftarrow> z_optional z_string (js_get j ''systemPrompt'');
     parameters \<leftarrow> z_optional ModelParametersSchema (js_get j ''parameters'');
     tools \<leftarrow> z_optional (z_array ToolSchema) (js_get j ''tools'');
     memory \<leftarrow> z_optional MemoryConfigSchema (js_get j ''memory'');
     connections \<leftarrow> z_optional (z_array z_string) (js_get j ''connections'');
     metadata \<leftarrow> z_optional z_record_unknown (js_get j ''metadata'');
     Some \<lparr>agent_id = i, agent_name = name, agent_description = description,
           agent_provider = provider, agent_model = model, agent_systemPrompt = systemPrompt,
           agent_parameters = parameters, agent_tools = tools, agent_memory = memory,
           agent_connections = connections, agent_metadata = metadata\<rparr>
   })"

definition NodePositionSchema :: "NodePosition schema" where
  "NodePositionSchema j = z_object j (do {
     x \<leftarrow> z_number (js_get j ''x'');
     y \<leftarrow> z_number (js_get j ''y'');
     Some \<lparr>pos_x = x, pos_y = y\<rparr>
   })"

definition WorkflowConnectionSchema :: "WorkflowConnection schema" where
  "WorkflowConnectionSchema j = z_object j (do {
     i \<leftarrow> z_string_min1 (js_get j ''id'');
     s \<leftarrow> z_string_min1 (js_get j ''sourceId'');
     t \<leftarrow> z_string_min1 (js_get j ''targetId'');
     sh \<leftarrow> z_optional z_string (js_get j ''sourceHandle'');
     th \<leftarrow> z_optional z_string (js_get j ''targetHandle'');
     c \<leftarrow> z_optional z_string (js_get j ''condition'');
     l \<leftarrow> z_optional z_string (js_get j ''label'');
     Some \<lparr>conn_id = i, sourceId = s, targetId = t, sourceHandle = sh, targetHandle = th,
           conn_condition = c, conn_label = l\<rparr>
   })"

definition node_type_names :: "(string \<times> NodeType) list" where
  "node_type_names =
     [(''agent'', AgentNode), (''trigger'', TriggerNode), (''condition'', ConditionNode),
      (''loop'', LoopNode), (''end'', EndNode)]"

definition WorkflowNodeSchema :: "WorkflowNode schema" where
  "WorkflowNodeSchema j = z_object j (do {
     i \<leftarrow> z_string_min1 (js_get j ''id'');
     t \<leftarrow> z_enum node_type_names (js_get j ''type'');
     agentId \<leftarrow> z_optional z_string (js_get j ''agentId'');
     agent \<leftarrow> z_optional AgentConfigSchema (js_get j ''agent'');
     position \<leftarrow> z_optional NodePositionSchema (js_get j ''position'');
     metadata \<leftarrow> z_optional z_record_unknown (js_get j ''metadata'');
     Some \<lparr>node_id = i, node_type = t, node_agentId = agentId, node_agent = agent,
           node_position = position, node_metadata = metadata\<rparr>
   })"

definition trigger_type_names :: "(string \<times> TriggerType) list" where
  "trigger_type_names =
     [(''manual'', Manual), (''schedule'', Schedule), (''webhook'', Webhook), (''event'', Event)]"

definition config_keys :: "string list" where
  "config_keys = [''schedule'', ''webhookUrl'', ''eventName'']"

definition TriggerConfigSchema :: "(string \<Rightarrow> bool) \<Rightarrow> TriggerConfig schema" where
  "TriggerConfigSchema isUrl j = (case j of
       JObj kvs \<Rightarrow> do {
         schedule \<leftarrow> z_optional z_string (js_get j ''schedule'');
         webhookUrl \<leftarrow> z_optional (z_string_url isUrl) (js_get j ''webhookUrl'');
         eventName \<leftarrow> z_optional z_string (js_get j ''eventName'');
         Some \<lparr>cfg_schedule = schedule, cfg_webhookUrl = webhookUrl, cfg_eventName = eventName,
               cfg_rest = filter (\<lambda>(k, v). k \<notin> set config_keys \<and> k \<noteq> ''__proto__'' \<and>
                                          v \<noteq> JUndefined) kvs\<rparr>
       }
     | _ \<Rightarrow> None)"

definition WorkflowTriggerSchema :: "(string \<Rightarrow> bool) \<Rightarrow> WorkflowTrigger schema" where
  "WorkflowTriggerSchema isUrl j = z_object j (do {
     t \<leftarrow> z_enum trigger_type_names (js_get j ''type'');
     config \<leftarrow> z_optional (TriggerConfigSchema isUrl) (js_get j ''config'');
     Some \<lparr>trig_type = t, trig_config = config\<rparr>
   })"

definition variable_type_names :: "(string \<times> VariableType) list" where
  "variable_type_names =
     [(''string'', VString), (''number'', VNumber), (''boolean'', VBoolean),
      (''object'', VObject), (''array'', VArray)]"

definition WorkflowVariableSchema :: "WorkflowVariable schema" where
  "WorkflowVariableSchema j = z_object j (do {
     name \<leftarrow> z_string_min1 (js_get j ''name'');
     t \<leftarrow> z_enum variable_type_names (js_get j ''type'');
     defaultValue \<leftarrow> z_optional z_unknown (js_get j ''defaultValue'');
     description \<leftarrow> z_optional z_string (js_get j ''description'');
     required \<leftarrow> z_optional z_boolean (js_get j ''required'');
     Some \<lparr>var_name = name, var_type = t, var_defaultValue = defaultValue,
           var_description = description, var_required = required\<rparr>
   })"

definition z_array_min1 :: "'a schema \<Rightarrow> 'a list schema" where
  "z_array_min1 p j = (case z_array p j of None \<Rightarrow> None
                      | Some xs \<Rightarrow> if 1 \<le> length xs then Some xs else None)"

definition WorkflowConfigObject :: "(string \<Rightarrow> bool) \<Rightarrow> WorkflowConfig schema" where
  "WorkflowConfigObject isUrl j = z_object j (do {
     i \<leftarrow> z_string_min1 (js_get j ''id'');
     name \<leftarrow> z_string_min1 (js_get j ''name'');
     description \<leftarrow> z_optional z_string (js_get j ''description'');
     version \<leftarrow> z_optional z_string (js_get j ''version'');
     nodes \<leftarrow> z_array_min1 WorkflowNodeSchema (js_get j ''nodes'');
     connections \<leftarrow> z_array WorkflowConnectionSchema (js_get j ''connections'');
     trigger \<leftarrow> z_optional (WorkflowTriggerSchema isUrl) (js_get j ''trigger'');
     variables \<leftarrow> z_optional (z_array WorkflowVariableSchema) (js_get j ''variables'');
     tags \<leftarrow> z_optional (z_array z_string) (js_get j ''tags'');
     metadata \<leftarrow> z_optional z_record_unknown (js_get j ''metadata'');
     Some \<lparr>wf_id = i, wf_name = name, wf_description = description, wf_version = version,
           wf_nodes = nodes, wf_connections = connections, wf_trigger = trigger,
           wf_variables = variables, wf_tags = tags, wf_metadata = metadata\<rparr>
   })"

text \<open>The two refinements of \<open>WorkflowConfigSchema\<close>, on the parsed object:
  every connection references existing nodes, and every agent node has a truthy
  \<open>agentId\<close> or an \<open>agent\<close>.\<close>

definition connections_reference_nodes :: "WorkflowConfig \<Rightarrow> bool" where
  "connections_reference_nodes workflow =
     (let nodeIds = map node_id (wf_nodes workflow)
      in list_all (\<lambda>conn. sourceId conn \<in> set nodeIds \<and> targetId conn \<in> set nodeIds)
           (wf_connections workflow))"

definition agent_nodes_have_agent :: "WorkflowConfig \<Rightarrow> bool" where
  "agent_nodes_have_agent workflow =
     list_all (\<lambda>n. truthy (node_agentId n) \<or> node_agent n \<noteq> None)
       (filter (\<lambda>n. node_type n = AgentNode) (wf_nodes workflow))"

definition WorkflowConfigSchema :: "(string \<Rightarrow> bool) \<Rightarrow> WorkflowConfig schema" where
  "WorkflowConfigSchema isUrl j =
     (case WorkflowConfigObject isUrl j of
        None \<Rightarrow> None
      | Some workflow \<Rightarrow>
          if connections_reference_nodes workflow \<and> agent_nodes_have_agent workflow
          then Some workflow else None)"

subsection \<open>The validator (src/utils/workflow-validator.ts)\<close>

text \<open>
  \<open>validateWorkflowConfig\<close> returns \<open>{success: true, data}\<close> when \<open>parse\<close> returns
  and \<open>{success: false, error}\<close> when it throws; the failure keeps the message of the
  error and leaves its issue list out.
\<close>

datatype WorkflowValidationResult = Success WorkflowConfig | Failure string

definition validateWorkflowConfig :: "(string \<Rightarrow> bool) \<Rightarrow> json \<Rightarrow> WorkflowValidationResult" where
  "validateWorkflowConfig isUrl config =
     (case WorkflowConfigSchema isUrl config of
        Some validatedData \<Rightarrow> Success validatedData
      | None \<Rightarrow> Failure ''Workflow validation failed'')"


section \<open>A parsed value as an unknown value\<close>

text \<open>
  A parsed workflow is again a JavaScript value, and can be handed to the validator a
  second time. The functions below forget the type: each record becomes the object with
  its properties, an optional property that is absent becoming \<open>undefined\<close> (reading
  a missing property and reading a property that holds \<open>undefined\<close> give the same
  result, and the schemas only read).
\<close>

definition json_opt :: "('a \<Rightarrow> json) \<Rightarrow> 'a option \<Rightarrow> json" where
  "json_opt e v = (case v of None \<Rightarrow> JUndefined | Some a \<Rightarrow> e a)"

definition json_list :: "('a \<Rightarrow> json) \<Rightarrow> 'a list \<Rightarrow> json" where
  "json_list e xs = JArr (map e xs)"

definition name_in :: "(string \<times> 'a) list \<Rightarrow> 'a \<Rightarrow> string" where
  "name_in table v = (case find (\<lambda>(k, x). x = v) table of Some (k, x) \<Rightarrow> k | None \<Rightarrow> [])"

definition json_enum :: "(string \<times> 'a) list \<Rightarrow> 'a \<Rightarrow> json" where
  "json_enum table v = JStr (name_in table v)"

definition MemoryConfig_json :: "MemoryConfig \<Rightarrow> json" where
  "MemoryConfig_json m = JObj
     [(''type'', json_enum memory_type_names (mem_type m)),
      (''maxMessages'', json_opt JNum (mem_maxMessages m)),
      (''persistent'', json_opt JBool (mem_persistent m))]"

definition Tool_json :: "Tool \<Rightarrow> json" where
  "Tool_json t = JObj
     [(''id'', JStr (tool_id t)),
      (''name'', JStr (tool_name t)),
      (''description'', JStr (tool_description t)),
      (''parameters'', json_opt JObj (tool_parameters t)),
      (''requiresAuth'', json_opt JBool (tool_requiresAuth t))]"

definition ModelParameters_json :: "ModelParameters \<Rightarrow> json" where
  "ModelParameters_json p = JObj
     [(''temperature'', json_opt JNum (temperature p)),
      (''maxTokens'', json_opt JNum (maxTokens p)),
      (''topP'', json_opt JNum (topP p)),
      (''frequencyPenalty'', json_opt JNum (frequencyPenalty p)),
      (''presencePenalty'', json_opt JNum (presencePenalty p)),
      (''stopSequences'', json_opt (json_list JStr) (stopSequences p))]"

definition AgentConfig_json :: "AgentConfig \<Rightarrow> json" where
  "AgentConfig_json a = JObj
     [(''id'', JStr (agent_id a)),
      (''name'', JStr (agent_name a)),
      (''description'', json_opt JStr (agent_description a)),
      (''provider'', json_enum provider_names (agent_provider a)),
      (''model'', JStr (agent_model a)),
      (''systemPrompt'', json_opt JStr (agent_systemPrompt a)),
      (''parameters'', json_opt ModelParameters_json (agent_parameters a)),
      (''tools'', json_opt (json_list Tool_json) (agent_tools a)),
      (''memory'', json_opt MemoryConfig_json (agent_memory a)),
      (''connections'', json_opt (json_list JStr) (agent_connections a)),
      (''metadata'', json_opt JObj (agent_metadata a))]"

definition NodePosition_json :: "NodePosition \<Rightarrow> json" where
  "NodePosition_json p = JObj [(''x'', JNum (pos_x p)), (''y'', JNum (pos_y p))]"

definition WorkflowConnection_json :: "WorkflowConnection \<Rightarrow> json" where
  "WorkflowConnection_json c = JObj
     [(''id'', JStr (conn_id c)),
      (''sourceId'', JStr (sourceId c)),
      (''targetId'', JStr (targetId c)),
      (''sourceHandle'', json_opt JStr (sourceHandle c)),
      (''targetHandle'', json_opt JStr (targetHandle c)),
      (''condition'', json_opt JStr (conn_condition c)),
      (''label'', json_opt JStr (conn_label c))]"

definition WorkflowNode_json :: "WorkflowNode \<Rightarrow> json" where
  "WorkflowNode_json n = JObj
     [(''id'', JStr (node_id n)),
      (''type'', json_enum node_type_names (node_type n)),
      (''agentId'', json_opt JStr (node_agentId n)),
      (''agent'', json_opt AgentConfig_json (node_agent n)),
      (''position'', json_opt NodePosition_json (node_position n)),
      (''metadata'', json_opt JObj (node_metadata n))]"

definition TriggerConfig_json :: "TriggerConfig \<Rightarrow> json" where
  "TriggerConfig_json c = JObj
     ([(''schedule'', json_opt JStr (cfg_schedule c)),
       (''webhookUrl'', json_opt JStr (cfg_webhookUrl c)),
       (''eventName'', json_opt JStr (cfg_eventName c))] @ cfg_rest c)"

definition WorkflowTrigger_json :: "WorkflowTrigger \<Rightarrow> json" where
  "WorkflowTrigger_json t = JObj
     [(''type'', json_enum trigger_type_names (trig_type t)),
      (''config'', json_opt TriggerConfig_json (trig_config t))]"

definition WorkflowVariable_json :: "WorkflowVariable \<Rightarrow> json" where
  "WorkflowVariable_json v = JObj
     [(''name'', JStr (var_name v)),
      (''type'', json_enum variable_type_names (var_type v)),
      (''defaultValue'', json_opt (\<lambda>d. d) (var_defaultValue v)),
      (''description'', json_opt JStr (var_description v)),
      (''required'', json_opt JBool (var_required v))]"

definition WorkflowConfig_json :: "WorkflowConfig \<Rightarrow> json" where
  "WorkflowConfig_json w = JObj
     [(''id'', JStr (wf_id w)),
      (''name'', JStr (wf_name w)),
      (''description'', json_opt JStr (wf_description w)),
      (''version'', json_opt JStr (wf_version w)),
      (''nodes'', json_list WorkflowNode_json (wf_nodes w)),
      (''connections'', json_list WorkflowConnection_json (wf_connections w)),
      (''trigger'', json_opt WorkflowTrigger_json (wf_trigger w)),
      (''variables'', json_opt (json_list WorkflowVariable_json) (wf_variables w)),
      (''tags'', json_opt (json_list JStr) (wf_tags w)),
      (''metadata'', json_opt JObj (wf_metadata w))]"


section \<open>The crew adapter (src/adapters/crewai.adapter.ts)\<close>

text \<open>
  The types are those of src/types/adapters.ts, with the properties the adapter sets. An
  option that is left out takes the default of the destructuring pattern
  (\<open>const { verbose = false, enableMemory = true, ... } = options\<close>).
\<close>

datatype CrewAIProcess = Sequential | Hierarchical | Consensual

record CrewAIAdapterOptions =
  crew_opt_process :: "CrewAIProcess option"
  crew_opt_verbose :: "bool option"
  crew_opt_enableMemory :: "bool option"
  crew_opt_enableCache :: "bool option"
  crew_opt_maxRpm :: "jsnum option"

record CrewAILlm =
  crew_llm_model :: string
  crew_llm_temperature :: jsnum
  crew_llm_maxTokens :: jsnum
  crew_llm_topP :: jsnum

record CrewAIAgent =
  ca_role :: string
  ca_goal :: string
  ca_backstory :: string
  ca_tools :: "string list option"
  ca_llm :: CrewAILlm
  ca_verbose :: bool
  ca_allowDelegation :: bool
  ca_maxIter :: nat
  ca_memory :: bool
  ca_cache :: bool

record CrewAITask =
  ct_description :: string
  ct_expectedOutput :: string
  ct_agent :: string
  ct_tools :: "string list option"
  ct_context :: "string list"
  ct_async :: bool

record CrewAICrew =
  crew_name :: string
  crew_agents :: "CrewAIAgent list"
  crew_tasks :: "CrewAITask list"
  crew_process :: CrewAIProcess
  crew_verbose :: bool
  crew_memory :: bool
  crew_cache :: bool
  crew_maxRpm :: jsnum
  crew_shareCrewAI :: bool

fun crew_provider :: "AIProvider \<Rightarrow> string" where
  "crew_provider Openai = ''openai''"
| "crew_provider Anthropic = ''anthropic''"
| "crew_provider Google = ''google''"
| "crew_provider Mistral = ''mistral''"
| "crew_provider Cohere = ''cohere''"
| "crew_provider AzureOpenai = ''azure''"
| "crew_provider Bedrock = ''bedrock''"
| "crew_provider Custom = ''custom''"

definition mapCrewAIModel :: "AIProvider \<Rightarrow> string \<Rightarrow> string" where
  "mapCrewAIModel provider model = crew_provider provider @ ''/'' @ model"

definition mapAgentToCrewAgent :: "AgentConfig \<Rightarrow> CrewAIAdapterOptions \<Rightarrow> CrewAIAgent" where
  "mapAgentToCrewAgent agent options =
     (let verbose = or_bool (crew_opt_verbose options) False;
          enableMemory = or_bool (crew_opt_enableMemory options) True;
          enableCache = or_bool (crew_opt_enableCache options) True;
          role = or_str (agent_name agent) (agent_id agent);
          goal = or_else (agent_systemPrompt agent)
                   (or_else (agent_description agent) (''Execute tasks as '' @ role));
          backstory =
            (if truthy (agent_description agent)
             then or_else (agent_description agent) '''' @ ''. '' @
                  or_else (agent_systemPrompt agent) ''''
             else or_else (agent_systemPrompt agent)
                    (''An AI agent specialized in performing tasks related to '' @ role @ ''.''));
          tools = map_option (map tool_name) (agent_tools agent);
          llm = \<lparr>crew_llm_model = mapCrewAIModel (agent_provider agent) (agent_model agent),
                 crew_llm_temperature =
                   or_num (Option.bind (agent_parameters agent) temperature) (Fin (7 / 10)),
                 crew_llm_maxTokens =
                   or_num (Option.bind (agent_parameters agent) maxTokens) (Fin 1000),
                 crew_llm_topP = or_num (Option.bind (agent_parameters agent) topP) (Fin 1)\<rparr>
      in \<lparr>ca_role = role, ca_goal = goal, ca_backstory = backstory, ca_tools = tools,
            ca_llm = llm, ca_verbose = verbose, ca_allowDelegation = True, ca_maxIter = 15,
            ca_memory = (enableMemory \<and> map_option mem_type (agent_memory agent) \<noteq> Some NoMemory),
            ca_cache = enableCache\<rparr>)"

text \<open>\<open>determineProcessType\<close>, with its two tests under their own names.\<close>

definition hasBranching :: "WorkflowConfig \<Rightarrow> bool" where
  "hasBranching workflow =
     list_ex (\<lambda>conn.
        1 < length (filter (\<lambda>c. sourceId c = sourceId conn) (wf_connections workflow)))
       (wf_connections workflow)"

definition isLinear :: "WorkflowConfig \<Rightarrow> bool" where
  "isLinear workflow =
     list_all (\<lambda>node.
        length (filter (\<lambda>c. targetId c = node_id node) (wf_connections workflow)) \<le> 1 \<and>
        length (filter (\<lambda>c. sourceId c = node_id node) (wf_connections workflow)) \<le> 1)
       (wf_nodes workflow)"

definition determineProcessType :: "WorkflowConfig \<Rightarrow> CrewAIProcess" where
  "determineProcessType workflow =
     (if hasBranching workflow \<or> \<not> isLinear workflow then Hierarchical else Sequential)"

text \<open>
  \<open>mapWorkflowToCrew\<close>: \<open>add_dependency\<close> is the body of the loop that fills
  \<open>dependencyMap\<close>, \<open>crew_node\<close> the body of \<open>workflow.nodes.forEach((node, index) => ...)\<close>
  with the two arrays it pushes to, and \<open>task_context\<close> the \<open>context\<close> of a task:
  \<open>filter(Boolean)\<close> drops \<open>undefined\<close> and the empty string.
\<close>

definition add_dependency ::
  "WorkflowConnection \<Rightarrow> (string \<times> string list) list \<Rightarrow> (string \<times> string list) list" where
  "add_dependency conn dependencyMap =
     (let deps = (case map_of dependencyMap (targetId conn) of None \<Rightarrow> [] | Some d \<Rightarrow> d)
      in map_set (targetId conn) (deps @ [sourceId conn]) dependencyMap)"

definition task_context :: "WorkflowConfig \<Rightarrow> string list \<Rightarrow> string list" where
  "task_context workflow dependencies =
     filter (\<lambda>depId. depId \<noteq> [] \<and>
        (case find (\<lambda>n. node_id n = depId) (wf_nodes workflow) of
           None \<Rightarrow> False
         | Some depNode \<Rightarrow> node_type depNode = AgentNode))
       dependencies"

definition crew_node ::
  "WorkflowConfig \<Rightarrow> CrewAIAdapterOptions \<Rightarrow> CrewAIProcess \<Rightarrow> (string \<times> string list) list \<Rightarrow>
   WorkflowNode \<times> nat \<Rightarrow> CrewAIAgent list \<times> CrewAITask list \<Rightarrow> CrewAIAgent list \<times> CrewAITask list" where
  "crew_node workflow options process dependencyMap = (\<lambda>(node, index) (agents, tasks).
     if node_type node = AgentNode then
       (case node_agent node of
          Some agentConfig \<Rightarrow>
            (let crewAgent = mapAgentToCrewAgent agentConfig options;
                 dependencies = (case map_of dependencyMap (node_id node) of
                                   None \<Rightarrow> [] | Some d \<Rightarrow> d);
                 task = \<lparr>ct_description =
                           or_else (agent_systemPrompt agentConfig)
                             (or_else (agent_description agentConfig)
                                (''Execute task '' @ string_of_nat (index + 1))),
                         ct_expectedOutput = ''Results from '' @ ca_role crewAgent,
                         ct_agent = ca_role crewAgent,
                         ct_tools = map_option (map tool_name) (agent_tools agentConfig),
                         ct_context = task_context workflow dependencies,
                         ct_async = (process = Hierarchical)\<rparr>
             in (agents @ [crewAgent], tasks @ [task]))
        | None \<Rightarrow> (agents, tasks))
     else (agents, tasks))"

definition mapWorkflowToCrew :: "WorkflowConfig \<Rightarrow> CrewAIAdapterOptions \<Rightarrow> CrewAICrew" where
  "mapWorkflowToCrew workflow options =
     (let process = (case crew_opt_process options of
                       None \<Rightarrow> determineProcessType workflow | Some p \<Rightarrow> p);
          verbose = or_bool (crew_opt_verbose options) False;
          enableMemory = or_bool (crew_opt_enableMemory options) True;
          enableCache = or_bool (crew_opt_enableCache options) True;
          maxRpm = or_num (crew_opt_maxRpm options) (Fin 10);
          dependencyMap = fold add_dependency (wf_connections workflow) [];
          (agents, tasks) =
             fold (crew_node workflow options process dependencyMap)
               (zip (wf_nodes workflow) [0..<length (wf_nodes workflow)]) ([], [])
      in \<lparr>crew_name = or_str (wf_name workflow) (wf_id workflow), crew_agents = agents,
            crew_tasks = tasks, crew_process = process, crew_verbose = verbose,
            crew_memory = enableMemory, crew_cache = enableCache, crew_maxRpm = maxRpm,
            crew_shareCrewAI = False\<rparr>)"


section \<open>The state-graph adapter (src/adapters/langchain.adapter.ts)\<close>

datatype LangChainAgentType =
    ZeroShotReactDescription | ReactDocstore | SelfAskWithSearch
  | ConversationalReactDescription | ChatZeroShotReactDescription
  | ChatConversationalReactDescription | StructuredChatZeroShotReactDescription
  | OpenaiFunctions | OpenaiMultiFunctions

record LangChainAdapterOptions =
  lc_opt_agentType :: "LangChainAgentType option"
  lc_opt_verbose :: "bool option"
  lc_opt_maxIterations :: "jsnum option"
  lc_opt_returnIntermediateSteps :: "bool option"

record LangChainTool =
  lct_name :: string
  lct_description :: string
  lct_parameters :: "(string \<times> json) list option"
  lct_returnDirect :: bool

datatype LangChainMemoryType =
  BufferMemory | BufferWindowMemory | SummaryMemory | EntityMemory | KnowledgeGraphMemory

record LangChainMemoryConfig =
  lcm_k :: "jsnum option"
  lcm_memoryKey :: string
  lcm_inputKey :: string
  lcm_outputKey :: string
  lcm_returnMessages :: bool

record LangChainMemory =
  lcm_type :: LangChainMemoryType
  lcm_config :: LangChainMemoryConfig

record LangChainLlm =
  lc_modelName :: string
  lc_temperature :: jsnum
  lc_maxTokens :: jsnum
  lc_topP :: jsnum
  lc_frequencyPenalty :: jsnum
  lc_presencePenalty :: jsnum
  lc_timeout :: jsnum
  lc_maxRetries :: jsnum

record LangChainAgent =
  lc_agentType :: LangChainAgentType
  lc_llm :: LangChainLlm
  lc_tools :: "LangChainTool list"
  lc_memory :: "LangChainMemory option"
  lc_systemMessage :: "string option"
  lc_verbose :: bool
  lc_maxIterations :: jsnum
  lc_returnIntermediateSteps :: bool

definition determineAgentType :: "AgentConfig \<Rightarrow> LangChainAgentType" where
  "determineAgentType agent =
     (if (case agent_tools agent of None \<Rightarrow> False | Some ts \<Rightarrow> 0 < length ts) then
        (if agent_provider agent = Openai then OpenaiFunctions else ZeroShotReactDescription)
      else if (case agent_memory agent of None \<Rightarrow> False | Some m \<Rightarrow> mem_type m \<noteq> NoMemory) then
        ConversationalReactDescription
      else ZeroShotReactDescription)"

fun mapMemoryType :: "MemoryType \<Rightarrow> LangChainMemoryType" where
  "mapMemoryType Buffer = BufferMemory"
| "mapMemoryType Summary = SummaryMemory"
| "mapMemoryType Vector = KnowledgeGraphMemory"
| "mapMemoryType NoMemory = BufferMemory"

fun providerPrefixes :: "AIProvider \<Rightarrow> string" where
  "providerPrefixes Openai = ''openai/''"
| "providerPrefixes Anthropic = ''anthropic/''"
| "providerPrefixes Google = ''google/''"
| "providerPrefixes Mistral = ''mistral/''"
| "providerPrefixes Cohere = ''cohere/''"
| "providerPrefixes AzureOpenai = ''azure/''"
| "providerPrefixes Bedrock = ''bedrock/''"
| "providerPrefixes Custom = ''''"

definition mapModelName :: "AIProvider \<Rightarrow> string \<Rightarrow> string" where
  "mapModelName provider model = providerPrefixes provider @ model"

definition mapAgentToLangChain :: "AgentConfig \<Rightarrow> LangChainAdapterOptions \<Rightarrow> LangChainAgent" where
  "mapAgentToLangChain agent options =
     (let agentType = (case lc_opt_agentType options of
                         None \<Rightarrow> determineAgentType agent | Some t \<Rightarrow> t);
          verbose = or_bool (lc_opt_verbose options) False;
          maxIterations = or_num (lc_opt_maxIterations options) (Fin 15);
          returnIntermediateSteps = or_bool (lc_opt_returnIntermediateSteps options) False;
          tools = map (\<lambda>tool. \<lparr>lct_name = tool_name tool,
                                 lct_description = tool_description tool,
                                 lct_parameters = tool_parameters tool,
                                 lct_returnDirect = False\<rparr>)
                    (case agent_tools agent of None \<Rightarrow> [] | Some ts \<Rightarrow> ts);
          memory = map_option
                     (\<lambda>m. \<lparr>lcm_type = mapMemoryType (mem_type m),
                           lcm_config = \<lparr>lcm_k = mem_maxMessages m,
                                          lcm_memoryKey = ''chat_history'',
                                          lcm_inputKey = ''input'',
                                          lcm_outputKey = ''output'',
                                          lcm_returnMessages = True\<rparr>\<rparr>)
                     (agent_memory agent);
          llm = \<lparr>lc_modelName = mapModelName (agent_provider agent) (agent_model agent),
                 lc_temperature =
                   or_num (Option.bind (agent_parameters agent) temperature) (Fin (7 / 10)),
                 lc_maxTokens = or_num (Option.bind (agent_parameters agent) maxTokens) (Fin 1000),
                 lc_topP = or_num (Option.bind (agent_parameters agent) topP) (Fin 1),
                 lc_frequencyPenalty =
                   or_num (Option.bind (agent_parameters agent) frequencyPenalty) (Fin 0),
                 lc_presencePenalty =
                   or_num (Option.bind (agent_parameters agent) presencePenalty) (Fin 0),
                 lc_timeout = Fin 60000,
                 lc_maxRetries = Fin 2\<rparr>
      in \<lparr>lc_agentType = agentType, lc_llm = llm, lc_tools = tools, lc_memory = memory,
            lc_systemMessage = agent_systemPrompt agent, lc_verbose = verbose,
            lc_maxIterations = maxIterations,
            lc_returnIntermediateSteps = returnIntermediateSteps\<rparr>)"

datatype LangGraphNodeType = LgAgent | LgTool | LgLlm | LgPrompt | LgConditional

datatype LangGraphConfig =
    TemplateConfig string
  | InlineAgentConfig LangChainAgentType LangChainLlm "LangChainTool list"
      "LangChainMemory option" "string option"
  | AgentIdConfig string
  | ConditionConfig string
  | NamedToolConfig string string
  | EmptyConfig

datatype LangGraphNext =
    NextSingle string
  | NextParallel "string list"
  | NextConditional "string \<rightharpoonup> string"

record LangGraphNode =
  lg_id :: string
  lg_type :: LangGraphNodeType
  lg_config :: LangGraphConfig
  lg_next :: "LangGraphNext option"

record LangGraphEdge =
  edge_source :: string
  edge_target :: string
  edge_condition :: "string option"

record LangGraphState =
  state_schema :: "string \<rightharpoonup> json"
  state_default :: "string \<rightharpoonup> json"

record LangGraphWorkflow =
  lgw_name :: string
  lgw_nodes :: "string \<rightharpoonup> LangGraphNode"
  lgw_edges :: "LangGraphEdge list"
  lgw_entryPoint :: string
  lgw_state :: LangGraphState
  lgw_checkpointer :: "string \<times> (string \<times> json) list"

text \<open>
  A \<open>Record<string, T>\<close> that the adapter fills is the finite map of its own
  properties. An assignment \<open>record[key] = value\<close> creates or replaces the property,
  except under the key \<open>__proto__\<close>, where it sets the prototype and the object gets
  no property; \<open>Object.fromEntries\<close> defines every key it is given, a later entry
  replacing an earlier one with the same key.
\<close>

definition assign :: "string \<Rightarrow> 'v \<Rightarrow> (string \<rightharpoonup> 'v) \<Rightarrow> (string \<rightharpoonup> 'v)" where
  "assign k v record = (if k = ''__proto__'' then record else record(k \<mapsto> v))"

definition fromEntries :: "(string \<times> 'v) list \<Rightarrow> (string \<rightharpoonup> 'v)" where
  "fromEntries entries = fold (\<lambda>(k, v) record. record(k \<mapsto> v)) entries Map.empty"

text \<open>
  The \<open>next\<close> field of a node: \<open>outgoingConnections\<close> as in the source,
  \<open>branch_entries\<close> the pairs \<open>[c.condition || 'default', c.targetId]\<close>, and
  \<open>next_of\<close> the three-way choice on the number of outgoing connections, where
  \<open>hasConditions\<close> is \<open>outgoingConnections.some((c) => c.condition)\<close>.
\<close>

definition outgoingConnections :: "WorkflowConfig \<Rightarrow> string \<Rightarrow> WorkflowConnection list" where
  "outgoingConnections workflow nodeId =
     filter (\<lambda>c. sourceId c = nodeId) (wf_connections workflow)"

definition branch_key :: "WorkflowConnection \<Rightarrow> string" where
  "branch_key c = or_else (conn_condition c) ''default''"

definition branch_entries :: "WorkflowConnection list \<Rightarrow> (string \<times> string) list" where
  "branch_entries outgoing = map (\<lambda>c. (branch_key c, targetId c)) outgoing"

definition next_of :: "WorkflowConnection list \<Rightarrow> LangGraphNext option" where
  "next_of outgoing =
     (case outgoing of
        [] \<Rightarrow> None
      | [c] \<Rightarrow> Some (NextSingle (targetId c))
      | _ \<Rightarrow>
          if list_ex (\<lambda>c. truthy (conn_condition c)) outgoing
          then Some (NextConditional (fromEntries (branch_entries outgoing)))
          else Some (NextParallel (map targetId outgoing)))"

text \<open>\<open>lgNode_of\<close> is the body of \<open>workflow.nodes.forEach\<close> up to the assignment
  \<open>nodes[node.id] = lgNode\<close>; a node's \<open>config\<close> record is one of six shapes.\<close>

definition lgNode_of :: "WorkflowConfig \<Rightarrow> LangChainAdapterOptions \<Rightarrow> WorkflowNode \<Rightarrow> LangGraphNode" where
  \<open>lgNode_of workflow options node =
     (let (t, config) =
        (case node_type node of
           TriggerNode \<Rightarrow> (LgPrompt, TemplateConfig ''Start workflow with input: {input}'')
         | AgentNode \<Rightarrow>
             (case node_agent node of
                Some agentConfig \<Rightarrow>
                  (let lcAgent = mapAgentToLangChain agentConfig options
                   in (LgAgent, InlineAgentConfig (lc_agentType lcAgent) (lc_llm lcAgent)
                                  (lc_tools lcAgent) (lc_memory lcAgent) (lc_systemMessage lcAgent)))
              | None \<Rightarrow> (LgAgent, AgentIdConfig (or_else (node_agentId node) (node_id node))))
         | ConditionNode \<Rightarrow> (LgConditional, ConditionConfig ''lambda x: x.get("condition", True)'')
         | LoopNode \<Rightarrow> (LgTool, NamedToolConfig ''loop'' ''Iterate over items'')
         | EndNode \<Rightarrow> (LgLlm, TemplateConfig ''Workflow completed. Output: {output}''))
      in \<lparr>lg_id = node_id node, lg_type = t, lg_config = config,
            lg_next = next_of (outgoingConnections workflow (node_id node))\<rparr>)\<close>

definition entryPoint_of :: "WorkflowConfig \<Rightarrow> string" where
  "entryPoint_of workflow =
     or_else (map_option node_id (find (\<lambda>n. node_type n = TriggerNode) (wf_nodes workflow)))
       (or_else (case wf_nodes workflow of [] \<Rightarrow> None | n # ns \<Rightarrow> Some (node_id n)) ''start'')"

definition declare_variable :: "WorkflowVariable \<Rightarrow> LangGraphState \<Rightarrow> LangGraphState" where
  "declare_variable variable state =
     \<lparr>state_schema = assign (var_name variable)
         (JStr (name_in variable_type_names (var_type variable))) (state_schema state),
      state_default =
        (case var_defaultValue variable of
           None \<Rightarrow> state_default state
         | Some v \<Rightarrow> if v = JUndefined then state_default state
                     else assign (var_name variable) v (state_default state))\<rparr>"

definition mapWorkflowToLangGraph :: "WorkflowConfig \<Rightarrow> LangChainAdapterOptions \<Rightarrow> LangGraphWorkflow" where
  "mapWorkflowToLangGraph workflow options =
     (let entryPoint = entryPoint_of workflow;
          nodes = fold (\<lambda>node nodes. assign (node_id node) (lgNode_of workflow options node) nodes)
                    (wf_nodes workflow) Map.empty;
          edges = map (\<lambda>conn. \<lparr>edge_source = sourceId conn, edge_target = targetId conn,
                                edge_condition = conn_condition conn\<rparr>)
                    (wf_connections workflow);
          declared = fold declare_variable
                       (case wf_variables workflow of None \<Rightarrow> [] | Some vs \<Rightarrow> vs)
                       \<lparr>state_schema = Map.empty, state_default = Map.empty\<rparr>;
          stateSchema = (state_schema declared)(''input'' \<mapsto> JStr ''string'', ''output'' \<mapsto> JStr ''string'');
          stateDefault = (state_default declared)(''input'' \<mapsto> JStr '''', ''output'' \<mapsto> JStr '''')
      in \<lparr>lgw_name = or_str (wf_name workflow) (wf_id workflow), lgw_nodes = nodes,
            lgw_edges = edges, lgw_entryPoint = entryPoint,
            lgw_state = \<lparr>state_schema = stateSchema, state_default = stateDefault\<rparr>,
            lgw_checkpointer = (''memory'', [])\<rparr>)"


section \<open>The node/edge adapter (src/adapters/n8n.adapter.ts)\<close>

text \<open>
  The \<open>position\<close> of a node (two coordinates computed in floating point by
  \<open>calculateNodePositions\<close>, a breadth-first levelling) is written once and read by no
  later statement; the node model leaves it out, and with it the options
  \<open>startPosition\<close> and \<open>nodeSpacing\<close>.

  \<open>String.prototype.includes\<close> is the test for a contiguous substring.
\<close>

fun starts_with :: "string \<Rightarrow> string \<Rightarrow> bool" where
  "starts_with s [] = True"
| "starts_with [] (c # p) = False"
| "starts_with (x # s) (c # p) = (x = c \<and> starts_with s p)"

fun str_includes :: "string \<Rightarrow> string \<Rightarrow> bool" where
  "str_includes [] sub = (sub = [])"
| "str_includes (x # s) sub = (starts_with (x # s) sub \<or> str_includes s sub)"

text \<open>
  The record \<open>connections\<close> is a plain object that the adapter reads under a computed
  key, \<open>connections[fromName]\<close>. Such a read finds the object's own property or else
  the property of that name that every object inherits from \<open>Object.prototype\<close>; the
  inherited values are a function or an object, so they are truthy and have no
  \<open>main\<close>, and \<open>connections[fromName].main.length\<close> then raises a \<open>TypeError\<close>.
\<close>

datatype js_error = TypeError

definition object_prototype_names :: "string list" where
  "object_prototype_names =
     [''constructor'', ''__defineGetter__'', ''__defineSetter__'', ''hasOwnProperty'',
      ''__lookupGetter__'', ''__lookupSetter__'', ''isPrototypeOf'', ''propertyIsEnumerable'',
      ''toString'', ''valueOf'', ''__proto__'', ''toLocaleString'']"

record N8nNode =
  n8n_name :: string
  n8n_type :: string
  n8n_typeVersion :: nat
  n8n_parameters :: "(string \<times> json) list"
  n8n_credentials :: "(string \<times> string \<times> string) option"

record N8nConnection =
  nc_node :: string
  nc_type :: string
  nc_index :: nat

datatype ExecutionOrder = V0 | V1

record N8nSettings =
  executionOrder :: "ExecutionOrder option"
  saveExecutionProgress :: "bool option"
  saveManualExecutions :: "bool option"

record N8nAdapterOptions =
  n8n_opt_includeCredentials :: "bool option"
  n8n_opt_workflowSettings :: "N8nSettings option"

type_synonym n8n_connections = "string \<rightharpoonup> N8nConnection list list"

record N8nWorkflow =
  n8nw_name :: string
  n8nw_nodes :: "N8nNode list"
  n8nw_connections :: n8n_connections
  n8nw_settings :: N8nSettings
  n8nw_active :: bool
  n8nw_tags :: json

fun credentialMap :: "AIProvider \<Rightarrow> string option" where
  "credentialMap Openai = Some ''openAiApi''"
| "credentialMap Anthropic = Some ''anthropicApi''"
| "credentialMap Google = Some ''googlePalmApi''"
| "credentialMap Mistral = Some ''mistralApi''"
| "credentialMap Cohere = Some ''cohereApi''"
| "credentialMap AzureOpenai = Some ''azureOpenAiApi''"
| "credentialMap Bedrock = Some ''awsApi''"
| "credentialMap Custom = None"

definition mapAgentToN8nNode :: "AgentConfig \<Rightarrow> bool option \<Rightarrow> N8nNode" where
  "mapAgentToN8nNode agent includeCredentials_opt =
     (let includeCredentials = or_bool includeCredentials_opt True;
          provider = name_in provider_names (agent_provider agent);
          parameters =
            [(''agentId'', JStr (agent_id agent)),
             (''agentName'', JStr (agent_name agent)),
             (''description'', JStr (or_else (agent_description agent) '''')),
             (''model'', JStr (agent_model agent)),
             (''provider'', JStr provider),
             (''systemPrompt'', JStr (or_else (agent_systemPrompt agent) ''''))]
            @ (case agent_parameters agent of
                 None \<Rightarrow> []
               | Some p \<Rightarrow>
                   [(''temperature'', JNum (or_num (temperature p) (Fin (7 / 10)))),
                    (''maxTokens'', JNum (or_num (maxTokens p) (Fin 1000))),
                    (''topP'', JNum (or_num (topP p) (Fin 1))),
                    (''frequencyPenalty'', json_opt JNum (frequencyPenalty p)),
                    (''presencePenalty'', json_opt JNum (presencePenalty p))])
            @ (case agent_tools agent of
                 None \<Rightarrow> []
               | Some ts \<Rightarrow>
                   if 0 < length ts
                   then [(''tools'', JArr (map (\<lambda>tool. JObj
                            [(''name'', JStr (tool_name tool)),
                             (''description'', JStr (tool_description tool)),
                             (''parameters'', json_opt JObj (tool_parameters tool))]) ts))]
                   else [])
            @ (case agent_memory agent of
                 None \<Rightarrow> []
               | Some m \<Rightarrow>
                   [(''memory'', JObj
                      [(''type'', JStr (name_in memory_type_names (mem_type m))),
                       (''maxMessages'', json_opt JNum (mem_maxMessages m)),
                       (''persistent'', json_opt JBool (mem_persistent m))])])
            @ (case agent_metadata agent of
                 None \<Rightarrow> []
               | Some md \<Rightarrow> [(''metadata'', JObj md)]);
          credentials =
            (if includeCredentials then
               (case credentialMap (agent_provider agent) of
                  None \<Rightarrow> None
                | Some slot \<Rightarrow> Some (slot, ''1'', provider @ '' Account''))
             else None)
      in \<lparr>n8n_name = or_str (agent_name agent) (agent_id agent),
            n8n_type = ''n8n-nodes-langchain.agent'', n8n_typeVersion = 1,
            n8n_parameters = parameters, n8n_credentials = credentials\<rparr>)"

fun mapTriggerToN8nType :: "TriggerType \<Rightarrow> string" where
  "mapTriggerToN8nType Webhook = ''n8n-nodes-base.webhook''"
| "mapTriggerToN8nType Schedule = ''n8n-nodes-base.scheduleTrigger''"
| "mapTriggerToN8nType Event = ''n8n-nodes-base.eventTrigger''"
| "mapTriggerToN8nType Manual = ''n8n-nodes-base.manualTrigger''"

definition trigger_parameters :: "WorkflowConfig \<Rightarrow> (string \<times> json) list" where
  "trigger_parameters workflow =
     (let config = Option.bind (wf_trigger workflow) trig_config;
          webhookUrl = Option.bind config cfg_webhookUrl;
          schedule = Option.bind config cfg_schedule;
          eventName = Option.bind config cfg_eventName
      in (if truthy webhookUrl then [(''path'', json_opt JStr webhookUrl)] else [])
       @ (if truthy schedule then [(''rule'', json_opt JStr schedule)] else [])
       @ (if truthy eventName then [(''events'', JArr [json_opt JStr eventName])] else []))"

definition n8nNode_of :: "WorkflowConfig \<Rightarrow> WorkflowNode \<Rightarrow> N8nNode" where
  "n8nNode_of workflow node =
     (case node_type node of
        TriggerNode \<Rightarrow>
          \<lparr>n8n_name = ''Trigger '' @ node_id node,
           n8n_type = (case wf_trigger workflow of
                         Some trigger \<Rightarrow> mapTriggerToN8nType (trig_type trigger)
                       | None \<Rightarrow> ''n8n-nodes-base.manualTrigger''),
           n8n_typeVersion = 1,
           n8n_parameters = trigger_parameters workflow,
           n8n_credentials = None\<rparr>
      | AgentNode \<Rightarrow>
          (case node_agent node of
             Some agentConfig \<Rightarrow> mapAgentToN8nNode agentConfig None
           | None \<Rightarrow>
               \<lparr>n8n_name = ''Agent '' @ node_id node,
                n8n_type = ''n8n-nodes-langchain.agent'',
                n8n_typeVersion = 1,
                n8n_parameters = [(''agentId'', JStr (or_else (node_agentId node) (node_id node)))],
                n8n_credentials = None\<rparr>)
      | ConditionNode \<Rightarrow>
          \<lparr>n8n_name = ''Condition '' @ node_id node,
           n8n_type = ''n8n-nodes-base.if'',
           n8n_typeVersion = 1,
           n8n_parameters =
             [(''conditions'', JObj [(''string'', JArr [JObj
                 [(''value1'', JStr ''={{$json.condition}}''),
                  (''operation'', JStr ''equals''),
                  (''value2'', JStr ''true'')]])])],
           n8n_credentials = None\<rparr>
      | LoopNode \<Rightarrow>
          \<lparr>n8n_name = ''Loop '' @ node_id node,
           n8n_type = ''n8n-nodes-base.splitInBatches'',
           n8n_typeVersion = 1,
           n8n_parameters = [(''batchSize'', JNum (Fin 1)), (''options'', JObj [])],
           n8n_credentials = None\<rparr>
      | EndNode \<Rightarrow>
          \<lparr>n8n_name = ''End '' @ node_id node,
           n8n_type = ''n8n-nodes-base.noOp'',
           n8n_typeVersion = 1,
           n8n_parameters = [],
           n8n_credentials = None\<rparr>)"

text \<open>
  The connection-building loop. \<open>names_node\<close> is the predicate of the two
  \<open>nodes.find\<close> calls, \<open>connect\<close> the body of \<open>workflow.connections.forEach\<close> on
  the record it updates (\<open>outputIndex\<close> is 0 on both branches of the source, so the
  \<open>while\<close> loop only acts on an empty \<open>main\<close>), and \<open>build_connections\<close> the loop,
  which a raised error leaves.
\<close>

definition names_node :: "string \<Rightarrow> N8nNode \<Rightarrow> bool" where
  "names_node endpoint n \<longleftrightarrow>
     str_includes (n8n_name n) endpoint \<or> map_of (n8n_parameters n) ''agentId'' = Some (JStr endpoint)"

definition push_connection :: "N8nConnection \<Rightarrow> N8nConnection list list \<Rightarrow> N8nConnection list list" where
  "push_connection c main = (case main of [] \<Rightarrow> [[c]] | out0 # outs \<Rightarrow> (out0 @ [c]) # outs)"

definition connect :: "N8nNode list \<Rightarrow> WorkflowConnection \<Rightarrow> n8n_connections \<Rightarrow> js_error + n8n_connections" where
  "connect nodes conn connections =
     (case find (names_node (sourceId conn)) nodes of
        None \<Rightarrow> Inr connections
      | Some fromNode \<Rightarrow>
          (case find (names_node (targetId conn)) nodes of
             None \<Rightarrow> Inr connections
           | Some toNode \<Rightarrow>
               (let fromName = n8n_name fromNode;
                    c = \<lparr>nc_node = n8n_name toNode, nc_type = ''main'', nc_index = 0\<rparr>
                in case connections fromName of
                     Some main \<Rightarrow> Inr (connections(fromName \<mapsto> push_connection c main))
                   | None \<Rightarrow>
                       if fromName \<in> set object_prototype_names then Inl TypeError
                       else Inr (connections(fromName \<mapsto> push_connection c [[]])))))"

fun build_connections ::
  "N8nNode list \<Rightarrow> WorkflowConnection list \<Rightarrow> n8n_connections \<Rightarrow> js_error + n8n_connections" where
  "build_connections nodes [] connections = Inr connections"
| "build_connections nodes (conn # rest) connections =
     (case connect nodes conn connections of
        Inl e \<Rightarrow> Inl e
      | Inr connections' \<Rightarrow> build_connections nodes rest connections')"

definition default_settings :: N8nSettings where
  "default_settings = \<lparr>executionOrder = Some V1, saveExecutionProgress = Some True,
                        saveManualExecutions = Some True\<rparr>"

definition mapWorkflowToN8n :: "WorkflowConfig \<Rightarrow> N8nAdapterOptions \<Rightarrow> js_error + N8nWorkflow" where
  "mapWorkflowToN8n workflow options =
     (let nodes = map (n8nNode_of workflow) (wf_nodes workflow)
      in case build_connections nodes (wf_connections workflow) Map.empty of
           Inl e \<Rightarrow> Inl e
         | Inr connections \<Rightarrow>
             Inr \<lparr>n8nw_name = or_str (wf_name workflow) (wf_id workflow),
                  n8nw_nodes = nodes,
                  n8nw_connections = connections,
                  n8nw_settings = (case n8n_opt_workflowSettings options of
                                     Some s \<Rightarrow> s | None \<Rightarrow> default_settings),
                  n8nw_active = False,
                  n8nw_tags = (case wf_metadata workflow of
                                 None \<Rightarrow> JUndefined
                               | Some md \<Rightarrow> js_get (JObj md) ''tags'')\<rparr>)"

text \<open>A connection resolves when each of its endpoints names a generated node.\<close>

definition resolvable :: "N8nNode list \<Rightarrow> WorkflowConnection \<Rightarrow> bool" where
  "resolvable nodes conn \<longleftrightarrow>
     find (names_node (sourceId conn)) nodes \<noteq> None \<and>
     find (names_node (targetId conn)) nodes \<noteq> None"


section \<open>Notions used in the statements\<close>

text \<open>The connection graph of a workflow, as a relation on node ids.\<close>

definition connection_graph :: "WorkflowConfig \<Rightarrow> (string \<times> string) set" where
  "connection_graph workflow = set (map (\<lambda>c. (sourceId c, targetId c)) (wf_connections workflow))"

text \<open>The inline agent descriptors of the agent-kind nodes, in node order.\<close>

definition inline_agents :: "WorkflowConfig \<Rightarrow> AgentConfig list" where
  "inline_agents workflow =
     List.map_filter (\<lambda>n. if node_type n = AgentNode then node_agent n else None)
       (wf_nodes workflow)"

text \<open>The \<open>next\<close> field of the node stored under an id in a state graph.\<close>

definition next_in :: "LangGraphWorkflow \<Rightarrow> string \<Rightarrow> LangGraphNext option" where
  "next_in graph nodeId = Option.bind (lgw_nodes graph nodeId) lg_next"

text \<open>What the connection-building loop leaves in the record when no step raises: under
  each source node's name, one output list holding, in connection order, a link to the
  target node of every connection whose two endpoints name a generated node.\<close>

definition emitted :: "N8nNode list \<Rightarrow> WorkflowConnection list \<Rightarrow> string \<Rightarrow> N8nConnection list" where
  "emitted nodes conns fromName =
     concat (map (\<lambda>conn.
       case find (names_node (sourceId conn)) nodes of
         None \<Rightarrow> []
       | Some fromNode \<Rightarrow>
           (case find (names_node (targetId conn)) nodes of
              None \<Rightarrow> []
            | Some toNode \<Rightarrow>
                if n8n_name fromNode = fromName
                then [\<lparr>nc_node = n8n_name toNode, nc_type = ''main'', nc_index = 0\<rparr>]
                else [])) conns)"

definition outputs_of :: "N8nNode list \<Rightarrow> WorkflowConnection list \<Rightarrow> n8n_connections" where
  "outputs_of nodes conns fromName =
     (if emitted nodes conns fromName = [] then None else Some [emitted nodes conns fromName])"


text \<open>
  The notions below state what the two graph functions compute. \<open>edges\<close> is the
  relation held by the adjacency structure. \<open>topo g order\<close> says that \<open>order\<close> has no
  repetition and that every neighbour of a listed node is listed after it; \<open>depth\<close> is
  the position of a node counted from the end of such a list. \<open>settled\<close> is the
  invariant of the depth-first search: the recursion stack is part of \<open>visited\<close>, and
  the visited nodes off the stack can be listed in such an order. \<open>preds\<close> are the
  nodes with a given neighbour, and \<open>kahn_inv\<close> is the invariant of the
  \<open>while\<close> loop of the sort: no id occurs twice in \<open>result\<close> and \<open>queue\<close>, the
  in-degree of a node counts its predecessors outside \<open>result\<close>, the nodes of
  in-degree zero are the ones in \<open>result\<close> or \<open>queue\<close>, and the predecessors of an
  element of \<open>result\<close> stand before it.
\<close>

definition edges :: "graph \<Rightarrow> (string \<times> string) set" where
  "edges g = {(u, v). v \<in> set (neighbors g u)}"

fun topo :: "graph \<Rightarrow> string list \<Rightarrow> bool" where
  "topo g [] = True"
| "topo g (u # rest) = (u \<notin> set rest \<and> set (neighbors g u) \<subseteq> set rest \<and> topo g rest)"

fun depth :: "string list \<Rightarrow> string \<Rightarrow> nat" where
  "depth [] x = 0"
| "depth (u # rest) x = (if x = u then Suc (length rest) else depth rest x)"

definition settled :: "graph \<Rightarrow> dfs_state \<Rightarrow> string list \<Rightarrow> bool" where
  "settled g s fin \<longleftrightarrow>
     set (snd s) \<subseteq> set (fst s) \<and> set fin = set (fst s) - set (snd s) \<and> topo g fin"

definition preds :: "graph \<Rightarrow> string set \<Rightarrow> string \<Rightarrow> string set" where
  "preds g V v = {u \<in> V. v \<in> set (neighbors g u)}"

definition kahn_inv :: "graph \<Rightarrow> string set \<Rightarrow> degrees \<Rightarrow> string list \<Rightarrow> string list \<Rightarrow> bool" where
  "kahn_inv g V inDegree queue result \<longleftrightarrow>
     distinct (result @ queue) \<and> set (result @ queue) \<subseteq> V \<and>
     (\<forall>v\<in>V. degree_or_0 inDegree v = int (card (preds g V v - set result))) \<and>
     (\<forall>v\<in>V. v \<in> set (result @ queue) \<longleftrightarrow> degree_or_0 inDegree v = 0) \<and>
     (\<forall>i<length result. preds g V (result ! i) \<subseteq> set (take i result))"


section \<open>Example workflows\<close>

definition every_url :: "string \<Rightarrow> bool" where
  "every_url s = True"

definition agent_ref :: "string \<Rightarrow> string \<Rightarrow> WorkflowNode" where
  "agent_ref i a = \<lparr>node_id = i, node_type = AgentNode, node_agentId = Some a,
     node_agent = None, node_position = None, node_metadata = None\<rparr>"

definition plain_node :: "string \<Rightarrow> NodeType \<Rightarrow> WorkflowNode" where
  "plain_node i t = \<lparr>node_id = i, node_type = t, node_agentId = None,
     node_agent = None, node_position = None, node_metadata = None\<rparr>"

definition edge :: "string \<Rightarrow> string \<Rightarrow> string \<Rightarrow> string option \<Rightarrow> WorkflowConnection" where
  "edge i s t c = \<lparr>conn_id = i, sourceId = s, targetId = t, sourceHandle = None,
     targetHandle = None, conn_condition = c, conn_label = None\<rparr>"

definition workflow_of :: "WorkflowNode list \<Rightarrow> WorkflowConnection list \<Rightarrow> WorkflowConfig" where
  "workflow_of ns cs = \<lparr>wf_id = ''workflow1'', wf_name = ''Workflow'', wf_description = None,
     wf_version = None, wf_nodes = ns, wf_connections = cs, wf_trigger = None,
     wf_variables = None, wf_tags = None, wf_metadata = None\<rparr>"

definition json_node :: "string \<Rightarrow> string \<Rightarrow> json" where
  "json_node i a = JObj [(''id'', JStr i), (''type'', JStr ''agent''), (''agentId'', JStr a)]"

definition json_edge :: "string \<Rightarrow> string \<Rightarrow> string \<Rightarrow> json" where
  "json_edge i s t = JObj [(''id'', JStr i), (''sourceId'', JStr s), (''targetId'', JStr t)]"

definition json_workflow :: "json list \<Rightarrow> json list \<Rightarrow> json" where
  "json_workflow ns cs = JObj [(''id'', JStr ''workflow1''), (''name'', JStr ''Workflow''),
     (''nodes'', JArr ns), (''connections'', JArr cs)]"

definition two_cycle_input :: json where
  "two_cycle_input = json_workflow [json_node ''node1'' ''agent1'', json_node ''node2'' ''agent2'']
     [json_edge ''conn1'' ''node1'' ''node2'', json_edge ''conn2'' ''node2'' ''node1'']"

definition two_cycle :: WorkflowConfig where
  "two_cycle = workflow_of [agent_ref ''node1'' ''agent1'', agent_ref ''node2'' ''agent2'']
     [edge ''conn1'' ''node1'' ''node2'' None, edge ''conn2'' ''node2'' ''node1'' None]"

definition self_loop_input :: json where
  "self_loop_input = json_workflow [json_node ''node1'' ''agent1'']
     [json_edge ''conn1'' ''node1'' ''node1'']"

definition self_loop :: WorkflowConfig where
  "self_loop = workflow_of [agent_ref ''node1'' ''agent1''] [edge ''conn1'' ''node1'' ''node1'' None]"

definition same_id_input :: json where
  "same_id_input = json_workflow [json_node ''node1'' ''agent1'', json_node ''node1'' ''agent2''] []"

definition same_id :: WorkflowConfig where
  "same_id = workflow_of [agent_ref ''node1'' ''agent1'', agent_ref ''node1'' ''agent2''] []"

definition double_edge :: WorkflowConfig where
  "double_edge = workflow_of [agent_ref ''node1'' ''agent1'', agent_ref ''node2'' ''agent2'']
     [edge ''conn1'' ''node1'' ''node2'' None, edge ''conn2'' ''node1'' ''node2'' None]"

definition two_branches_one_target :: WorkflowConfig where
  "two_branches_one_target =
     workflow_of [plain_node ''check'' ConditionNode, agent_ref ''work'' ''agent1'', plain_node ''done'' EndNode]
       [edge ''conn1'' ''check'' ''work'' (Some ''yes''), edge ''conn2'' ''check'' ''work'' (Some ''no''),
        edge ''conn3'' ''work'' ''done'' None]"

definition stripped_input :: json where
  "stripped_input = JObj
     [(''id'', JStr ''workflow1''), (''name'', JStr ''Workflow''), (''owner'', JStr ''nobody''),
      (''nodes'', JArr [JObj [(''id'', JStr ''node1''), (''type'', JStr ''agent''),
                              (''agentId'', JStr ''agent1''), (''colour'', JStr ''red'')]]),
      (''connections'', JArr [])]"

definition stripped :: WorkflowConfig where
  "stripped = workflow_of [agent_ref ''node1'' ''agent1''] []"

definition no_crew_options :: CrewAIAdapterOptions where
  "no_crew_options = \<lparr>crew_opt_process = None, crew_opt_verbose = None,
     crew_opt_enableMemory = None, crew_opt_enableCache = None, crew_opt_maxRpm = None\<rparr>"

definition minimal_agent :: "string \<Rightarrow> string \<Rightarrow> AgentConfig" where
  "minimal_agent i n = \<lparr>agent_id = i, agent_name = n, agent_description = None,
     agent_provider = Openai, agent_model = ''gpt-4'', agent_systemPrompt = None,
     agent_parameters = None, agent_tools = None, agent_memory = None,
     agent_connections = None, agent_metadata = None\<rparr>"

definition inline_node :: "string \<Rightarrow> AgentConfig \<Rightarrow> WorkflowNode" where
  "inline_node i a = \<lparr>node_id = i, node_type = AgentNode, node_agentId = None,
     node_agent = Some a, node_position = None, node_metadata = None\<rparr>"

definition chain3 :: WorkflowConfig where
  "chain3 = workflow_of
     [agent_ref ''node1'' ''agent1'', agent_ref ''node2'' ''agent2'', agent_ref ''node3'' ''agent3'']
     [edge ''conn1'' ''node1'' ''node2'' None, edge ''conn2'' ''node2'' ''node3'' None]"

definition fan_out :: WorkflowConfig where
  "fan_out = workflow_of
     [agent_ref ''node1'' ''agent1'', agent_ref ''node2'' ''agent2'', agent_ref ''node3'' ''agent3'',
      agent_ref ''node4'' ''agent4'']
     [edge ''conn1'' ''node1'' ''node2'' None, edge ''conn2'' ''node2'' ''node3'' None,
      edge ''conn3'' ''node1'' ''node4'' None]"

definition chain3_input :: json where
  "chain3_input = json_workflow
     [json_node ''node1'' ''agent1'', json_node ''node2'' ''agent2'', json_node ''node3'' ''agent3'']
     [json_edge ''conn1'' ''node1'' ''node2'', json_edge ''conn2'' ''node2'' ''node3'']"

definition fan_out_input :: json where
  "fan_out_input = json_workflow
     [json_node ''node1'' ''agent1'', json_node ''node2'' ''agent2'', json_node ''node3'' ''agent3'',
      json_node ''node4'' ''agent4'']
     [json_edge ''conn1'' ''node1'' ''node2'', json_edge ''conn2'' ''node2'' ''node3'',
      json_edge ''conn3'' ''node1'' ''node4'']"

definition bare_reference :: WorkflowConfig where
  "bare_reference = workflow_of [agent_ref ''node1'' ''agent1''] []"

definition no_chain_options :: LangChainAdapterOptions where
  "no_chain_options = \<lparr>lc_opt_agentType = None, lc_opt_verbose = None,
     lc_opt_maxIterations = None, lc_opt_returnIntermediateSteps = None\<rparr>"

definition yes_and_two_defaults :: WorkflowConfig where
  "yes_and_two_defaults = workflow_of
     [plain_node ''check'' ConditionNode, agent_ref ''b'' ''agent1'', agent_ref ''c'' ''agent2'',
      agent_ref ''d'' ''agent3'']
     [edge ''conn1'' ''check'' ''b'' (Some ''yes''), edge ''conn2'' ''check'' ''c'' None,
      edge ''conn3'' ''check'' ''d'' None]"

definition empty_label :: WorkflowConfig where
  "empty_label = workflow_of
     [plain_node ''check'' ConditionNode, agent_ref ''b'' ''agent1'', agent_ref ''c'' ''agent2'']
     [edge ''conn1'' ''check'' ''b'' (Some ''''), edge ''conn2'' ''check'' ''c'' None]"

definition yes_and_default :: WorkflowConfig where
  "yes_and_default = workflow_of
     [plain_node ''check'' ConditionNode, agent_ref ''b'' ''agent1'', agent_ref ''c'' ''agent2'']
     [edge ''conn1'' ''check'' ''b'' (Some ''yes''), edge ''conn2'' ''check'' ''c'' None]"

definition variable :: "string \<Rightarrow> VariableType \<Rightarrow> json option \<Rightarrow> WorkflowVariable" where
  "variable n t d = \<lparr>var_name = n, var_type = t, var_defaultValue = d,
     var_description = None, var_required = None\<rparr>"

definition declares_input :: WorkflowConfig where
  "declares_input = (workflow_of [agent_ref ''node1'' ''agent1''] [])
     \<lparr>wf_variables := Some [variable ''input'' VNumber (Some (JNum (Fin 5))),
                             variable ''count'' VNumber (Some (JNum (Fin 0)))]\<rparr>"

definition no_n8n_options :: N8nAdapterOptions where
  "no_n8n_options = \<lparr>n8n_opt_includeCredentials = None, n8n_opt_workflowSettings = None\<rparr>"

definition constructor_agent :: WorkflowConfig where
  "constructor_agent = workflow_of
     [inline_node ''constructor'' (minimal_agent ''constructor'' ''constructor''),
      plain_node ''done'' EndNode]
     [edge ''conn1'' ''missing'' ''done'' None, edge ''conn2'' ''constructor'' ''done'' None]"

definition one_missing :: WorkflowConfig where
  "one_missing = workflow_of
     [agent_ref ''node1'' ''agent1'', plain_node ''done'' EndNode]
     [edge ''conn1'' ''missing'' ''done'' None, edge ''conn2'' ''node1'' ''done'' None]"

section \<open>Facts about the schemas\<close>

lemmas schema_defs =
  WorkflowConfigObject_def WorkflowNodeSchema_def WorkflowConnectionSchema_def
  z_object_def z_array_min1_def z_array_def z_optional_def z_string_min1_def z_string_def
  z_enum_def z_record_unknown_def js_get_def node_type_names_def

lemma parse_json_node:
  "i \<noteq> [] \<Longrightarrow> WorkflowNodeSchema (json_node i a) = Some (agent_ref i a)"
  by (simp add: schema_defs json_node_def agent_ref_def Suc_le_eq)

lemma parse_json_edge:
  "i \<noteq> [] \<Longrightarrow> s \<noteq> [] \<Longrightarrow> t \<noteq> [] \<Longrightarrow>
   WorkflowConnectionSchema (json_edge i s t) = Some (edge i s t None)"
  by (simp add: schema_defs json_edge_def edge_def Suc_le_eq)

lemma parse_json_workflow:
  "those (map WorkflowNodeSchema ns) = Some nodes \<Longrightarrow> nodes \<noteq> [] \<Longrightarrow>
   those (map WorkflowConnectionSchema cs) = Some conns \<Longrightarrow>
   WorkflowConfigObject isUrl (json_workflow ns cs) = Some (workflow_of nodes conns)"
  by (simp add: WorkflowConfigObject_def z_object_def z_array_min1_def z_array_def z_optional_def
      z_string_min1_def js_get_def json_workflow_def workflow_of_def Suc_le_eq)

lemmas example_defs = workflow_of_def agent_ref_def plain_node_def edge_def

lemmas graph_defs =
  detectWorkflowCycles_def buildGraph_def add_edge_def set_add_def neighbors_def
  getWorkflowTopologicalOrder_def init_node_def count_connection_def degree_or_0_def release_def

lemmas refinement_defs = connections_reference_nodes_def agent_nodes_have_agent_def

definition reparses :: "'a schema \<Rightarrow> ('a \<Rightarrow> json) \<Rightarrow> bool" where
  "reparses p e \<longleftrightarrow> (\<forall>j x. p j = Some x \<longrightarrow> p (e x) = Some x \<and> e x \<noteq> JUndefined)"

lemma reparsesI: "(\<And>j x. p j = Some x \<Longrightarrow> p (e x) = Some x \<and> e x \<noteq> JUndefined) \<Longrightarrow> reparses p e"
  by (simp add: reparses_def)

lemma reparsesD: "reparses p e \<Longrightarrow> p j = Some x \<Longrightarrow> p (e x) = Some x"
  by (simp add: reparses_def)

lemma reparses_string: "reparses z_string JStr"
  by (rule reparsesI) (auto simp: z_string_def split: json.splits)

lemma reparses_string_min1: "reparses z_string_min1 JStr"
  by (rule reparsesI) (auto simp: z_string_min1_def split: json.splits if_splits)

lemma reparses_string_url: "reparses (z_string_url isUrl) JStr"
  by (rule reparsesI) (auto simp: z_string_url_def split: json.splits if_splits)

lemma reparses_boolean: "reparses z_boolean JBool"
  by (rule reparsesI) (auto simp: z_boolean_def split: json.splits)

lemma reparses_number: "reparses z_number JNum"
  by (rule reparsesI) (auto simp: z_number_def split: json.splits if_splits)

lemma reparses_number_min_max: "reparses (z_number_min_max lo hi) JNum"
  by (rule reparsesI) (auto simp: z_number_min_max_def z_number_def split: json.splits if_splits option.splits)

lemma reparses_number_int_positive: "reparses z_number_int_positive JNum"
  by (rule reparsesI) (auto simp: z_number_int_positive_def z_number_def split: json.splits if_splits option.splits)

lemma reparses_record_unknown: "reparses z_record_unknown JObj"
  by (rule reparsesI) (auto simp: z_record_unknown_def split: json.splits)

lemma those_map_reparses:
  assumes "\<And>j x. p j = Some x \<Longrightarrow> p (e x) = Some x"
  shows "those (map p js) = Some xs \<Longrightarrow> those (map p (map e xs)) = Some xs"
proof (induction js arbitrary: xs)
  case Nil
  then show ?case by simp
next
  case (Cons j js)
  then obtain y ys where y: "p j = Some y" and ys: "those (map p js) = Some ys" and xs: "xs = y # ys"
    by (auto split: option.splits)
  have "those (map p (map e ys)) = Some ys" using ys by (rule Cons.IH)
  with assms[OF y] xs show ?case by simp
qed

lemma reparses_array: "reparses p e \<Longrightarrow> reparses (z_array p) (json_list e)"
proof (rule reparsesI)
  fix j xs
  assume st: "reparses p e" and "z_array p j = Some xs"
  then obtain js where "those (map p js) = Some xs"
    by (auto simp: z_array_def split: json.splits)
  then have "those (map p (map e xs)) = Some xs"
    by (rule those_map_reparses[rotated]) (rule reparsesD[OF st])
  then show "z_array p (json_list e xs) = Some xs \<and> json_list e xs \<noteq> JUndefined"
    by (simp add: z_array_def json_list_def)
qed

lemma those_length: "those ys = Some xs \<Longrightarrow> length xs = length ys"
  by (induction ys arbitrary: xs) (auto split: option.splits)

lemma reparses_array_min1: "reparses p e \<Longrightarrow> reparses (z_array_min1 p) (json_list e)"
proof (rule reparsesI)
  fix j xs
  assume st: "reparses p e" and "z_array_min1 p j = Some xs"
  then have a: "z_array p j = Some xs" and l: "1 \<le> length xs"
    by (auto simp: z_array_min1_def split: option.splits if_splits)
  have "z_array p (json_list e xs) = Some xs"
    using reparses_array[OF st] a by (rule reparsesD)
  with l show "z_array_min1 p (json_list e xs) = Some xs \<and> json_list e xs \<noteq> JUndefined"
    by (simp add: z_array_min1_def json_list_def)
qed

lemma optional_reparses:
  "reparses p e \<Longrightarrow> z_optional p j = Some v \<Longrightarrow> z_optional p (json_opt e v) = Some v"
  by (auto simp: z_optional_def json_opt_def reparses_def split: if_splits option.splits)

lemma optional_unknown_reparses:
  "z_optional z_unknown j = Some v \<Longrightarrow> z_optional z_unknown (json_opt (\<lambda>d. d) v) = Some v"
  by (auto simp: z_optional_def json_opt_def z_unknown_def split: if_splits option.splits)

lemma reparses_providers: "reparses (z_enum provider_names) (json_enum provider_names)"
proof (rule reparsesI)
  fix j x
  show "z_enum provider_names (json_enum provider_names x) = Some x \<and> json_enum provider_names x \<noteq> JUndefined"
    by (cases x) (simp_all add: z_enum_def json_enum_def name_in_def provider_names_def)
qed

lemma reparses_memory_types: "reparses (z_enum memory_type_names) (json_enum memory_type_names)"
proof (rule reparsesI)
  fix j x
  show "z_enum memory_type_names (json_enum memory_type_names x) = Some x \<and> json_enum memory_type_names x \<noteq> JUndefined"
    by (cases x) (simp_all add: z_enum_def json_enum_def name_in_def memory_type_names_def)
qed

lemma reparses_node_types: "reparses (z_enum node_type_names) (json_enum node_type_names)"
proof (rule reparsesI)
  fix j x
  show "z_enum node_type_names (json_enum node_type_names x) = Some x \<and> json_enum node_type_names x \<noteq> JUndefined"
    by (cases x) (simp_all add: z_enum_def json_enum_def name_in_def node_type_names_def)
qed

lemma reparses_trigger_types: "reparses (z_enum trigger_type_names) (json_enum trigger_type_names)"
proof (rule reparsesI)
  fix j x
  show "z_enum trigger_type_names (json_enum trigger_type_names x) = Some x \<and> json_enum trigger_type_names x \<noteq> JUndefined"
    by (cases x) (simp_all add: z_enum_def json_enum_def name_in_def trigger_type_names_def)
qed

lemma reparses_variable_types: "reparses (z_enum variable_type_names) (json_enum variable_type_names)"
proof (rule reparsesI)
  fix j x
  show "z_enum variable_type_names (json_enum variable_type_names x) = Some x \<and> json_enum variable_type_names x \<noteq> JUndefined"
    by (cases x) (simp_all add: z_enum_def json_enum_def name_in_def variable_type_names_def)
qed

lemma z_object_Some: "z_object j body = Some x \<Longrightarrow> body = Some x"
  by (auto simp: z_object_def split: json.splits)

lemma reparses_MemoryConfig: "reparses MemoryConfigSchema MemoryConfig_json"
proof (rule reparsesI)
  fix j x
  assume "MemoryConfigSchema j = Some x"
  then obtain t m p where
    t: "z_enum memory_type_names (js_get j ''type'') = Some t" and
    m: "z_optional z_number_int_positive (js_get j ''maxMessages'') = Some m" and
    p: "z_optional z_boolean (js_get j ''persistent'') = Some p" and
    x: "x = \<lparr>mem_type = t, mem_maxMessages = m, mem_persistent = p\<rparr>"
    by (auto simp: MemoryConfigSchema_def bind_eq_Some_conv dest!: z_object_Some)
  note reparsesD[OF reparses_memory_types t]
    optional_reparses[OF reparses_number_int_positive m]
    optional_reparses[OF reparses_boolean p]
  then show "MemoryConfigSchema (MemoryConfig_json x) = Some x \<and> MemoryConfig_json x \<noteq> JUndefined"
    by (simp add: x MemoryConfigSchema_def MemoryConfig_json_def z_object_def js_get_def)
qed


lemma reparses_Tool: "reparses ToolSchema Tool_json"
proof (rule reparsesI)
  fix j x
  assume "ToolSchema j = Some x"
  then obtain i n d p r where
    f: "z_string_min1 (js_get j ''id'') = Some i"
       "z_string_min1 (js_get j ''name'') = Some n"
       "z_string (js_get j ''description'') = Some d"
       "z_optional z_record_unknown (js_get j ''parameters'') = Some p"
       "z_optional z_boolean (js_get j ''requiresAuth'') = Some r" and
    x: "x = \<lparr>tool_id = i, tool_name = n, tool_description = d, tool_parameters = p,
               tool_requiresAuth = r\<rparr>"
    by (auto simp: ToolSchema_def bind_eq_Some_conv dest!: z_object_Some)
  note reparsesD[OF reparses_string_min1 f(1)]
    reparsesD[OF reparses_string_min1 f(2)]
    reparsesD[OF reparses_string f(3)]
    optional_reparses[OF reparses_record_unknown f(4)]
    optional_reparses[OF reparses_boolean f(5)]
  then show "ToolSchema (Tool_json x) = Some x \<and> Tool_json x \<noteq> JUndefined"
    by (simp add: x ToolSchema_def Tool_json_def z_object_def js_get_def)
qed

lemma reparses_ModelParameters: "reparses ModelParametersSchema ModelParameters_json"
proof (rule reparsesI)
  fix j x
  assume "ModelParametersSchema j = Some x"
  then obtain t m p fp pp ss where
    f: "z_optional (z_number_min_max 0 2) (js_get j ''temperature'') = Some t"
       "z_optional z_number_int_positive (js_get j ''maxTokens'') = Some m"
       "z_optional (z_number_min_max 0 1) (js_get j ''topP'') = Some p"
       "z_optional (z_number_min_max (- 2) 2) (js_get j ''frequencyPenalty'') = Some fp"
       "z_optional (z_number_min_max (- 2) 2) (js_get j ''presencePenalty'') = Some pp"
       "z_optional (z_array z_string) (js_get j ''stopSequences'') = Some ss" and
    x: "x = \<lparr>temperature = t, maxTokens = m, topP = p, frequencyPenalty = fp,
               presencePenalty = pp, stopSequences = ss\<rparr>"
    by (auto simp: ModelParametersSchema_def bind_eq_Some_conv dest!: z_object_Some)
  note optional_reparses[OF reparses_number_min_max f(1)]
    optional_reparses[OF reparses_number_int_positive f(2)]
    optional_reparses[OF reparses_number_min_max f(3)]
    optional_reparses[OF reparses_number_min_max f(4)]
    optional_reparses[OF reparses_number_min_max f(5)]
    optional_reparses[OF reparses_array[OF reparses_string] f(6)]
  then show "ModelParametersSchema (ModelParameters_json x) = Some x \<and> ModelParameters_json x \<noteq> JUndefined"
    by (simp add: x ModelParametersSchema_def ModelParameters_json_def z_object_def js_get_def)
qed

lemma reparses_AgentConfig: "reparses AgentConfigSchema AgentConfig_json"
proof (rule reparsesI)
  fix j x
  assume "AgentConfigSchema j = Some x"
  then obtain i n d pr mo sp pa ts me co md where
    f: "z_string_min1 (js_get j ''id'') = Some i"
       "z_string_min1 (js_get j ''name'') = Some n"
       "z_optional z_string (js_get j ''description'') = Some d"
       "z_enum provider_names (js_get j ''provider'') = Some pr"
       "z_string_min1 (js_get j ''model'') = Some mo"
       "z_optional z_string (js_get j ''systemPrompt'') = Some sp"
       "z_optional ModelParametersSchema (js_get j ''parameters'') = Some pa"
       "z_optional (z_array ToolSchema) (js_get j ''tools'') = Some ts"
       "z_optional MemoryConfigSchema (js_get j ''memory'') = Some me"
       "z_optional (z_array z_string) (js_get j ''connections'') = Some co"
       "z_optional z_record_unknown (js_get j ''metadata'') = Some md" and
    x: "x = \<lparr>agent_id = i, agent_name = n, agent_description = d, agent_provider = pr,
               agent_model = mo, agent_systemPrompt = sp, agent_parameters = pa,
               agent_tools = ts, agent_memory = me, agent_connections = co,
               agent_metadata = md\<rparr>"
    by (auto simp: AgentConfigSchema_def AIProviderSchema_def bind_eq_Some_conv dest!: z_object_Some)
  note reparsesD[OF reparses_string_min1 f(1)]
    reparsesD[OF reparses_string_min1 f(2)]
    optional_reparses[OF reparses_string f(3)]
    reparsesD[OF reparses_providers f(4)]
    reparsesD[OF reparses_string_min1 f(5)]
    optional_reparses[OF reparses_string f(6)]
    optional_reparses[OF reparses_ModelParameters f(7)]
    optional_reparses[OF reparses_array[OF reparses_Tool] f(8)]
    optional_reparses[OF reparses_MemoryConfig f(9)]
    optional_reparses[OF reparses_array[OF reparses_string] f(10)]
    optional_reparses[OF reparses_record_unknown f(11)]
  then show "AgentConfigSchema (AgentConfig_json x) = Some x \<and> AgentConfig_json x \<noteq> JUndefined"
    by (simp add: x AgentConfigSchema_def AIProviderSchema_def AgentConfig_json_def z_object_def js_get_def)
qed

lemma reparses_NodePosition: "reparses NodePositionSchema NodePosition_json"
proof (rule reparsesI)
  fix j x
  assume "NodePositionSchema j = Some x"
  then obtain a b where
    f: "z_number (js_get j ''x'') = Some a" "z_number (js_get j ''y'') = Some b" and
    x: "x = \<lparr>pos_x = a, pos_y = b\<rparr>"
    by (auto simp: NodePositionSchema_def bind_eq_Some_conv dest!: z_object_Some)
  note reparsesD[OF reparses_number f(1)] reparsesD[OF reparses_number f(2)]
  then show "NodePositionSchema (NodePosition_json x) = Some x \<and> NodePosition_json x \<noteq> JUndefined"
    by (simp add: x NodePositionSchema_def NodePosition_json_def z_object_def js_get_def)
qed

lemma reparses_WorkflowConnection: "reparses WorkflowConnectionSchema WorkflowConnection_json"
proof (rule reparsesI)
  fix j x
  assume "WorkflowConnectionSchema j = Some x"
  then obtain i s t sh th c l where
    f: "z_string_min1 (js_get j ''id'') = Some i"
       "z_string_min1 (js_get j ''sourceId'') = Some s"
       "z_string_min1 (js_get j ''targetId'') = Some t"
       "z_optional z_string (js_get j ''sourceHandle'') = Some sh"
       "z_optional z_string (js_get j ''targetHandle'') = Some th"
       "z_optional z_string (js_get j ''condition'') = Some c"
       "z_optional z_string (js_get j ''label'') = Some l" and
    x: "x = \<lparr>conn_id = i, sourceId = s, targetId = t, sourceHandle = sh, targetHandle = th,
               conn_condition = c, conn_label = l\<rparr>"
    by (auto simp: WorkflowConnectionSchema_def bind_eq_Some_conv dest!: z_object_Some)
  note reparsesD[OF reparses_string_min1 f(1)]
    reparsesD[OF reparses_string_min1 f(2)]
    reparsesD[OF reparses_string_min1 f(3)]
    optional_reparses[OF reparses_string f(4)]
    optional_reparses[OF reparses_string f(5)]
    optional_reparses[OF reparses_string f(6)]
    optional_reparses[OF reparses_string f(7)]
  then show "WorkflowConnectionSchema (WorkflowConnection_json x) = Some x \<and> WorkflowConnection_json x \<noteq> JUndefined"
    by (simp add: x WorkflowConnectionSchema_def WorkflowConnection_json_def z_object_def js_get_def)
qed

lemma reparses_WorkflowNode: "reparses WorkflowNodeSchema WorkflowNode_json"
proof (rule reparsesI)
  fix j x
  assume "WorkflowNodeSchema j = Some x"
  then obtain i t ai a p m where
    f: "z_string_min1 (js_get j ''id'') = Some i"
       "z_enum node_type_names (js_get j ''type'') = Some t"
       "z_optional z_string (js_get j ''agentId'') = Some ai"
       "z_optional AgentConfigSchema (js_get j ''agent'') = Some a"
       "z_optional NodePositionSchema (js_get j ''position'') = Some p"
       "z_optional z_record_unknown (js_get j ''metadata'') = Some m" and
    x: "x = \<lparr>node_id = i, node_type = t, node_agentId = ai, node_agent = a,
               node_position = p, node_metadata = m\<rparr>"
    by (auto simp: WorkflowNodeSchema_def bind_eq_Some_conv dest!: z_object_Some)
  note reparsesD[OF reparses_string_min1 f(1)]
    reparsesD[OF reparses_node_types f(2)]
    optional_reparses[OF reparses_string f(3)]
    optional_reparses[OF reparses_AgentConfig f(4)]
    optional_reparses[OF reparses_NodePosition f(5)]
    optional_reparses[OF reparses_record_unknown f(6)]
  then show "WorkflowNodeSchema (WorkflowNode_json x) = Some x \<and> WorkflowNode_json x \<noteq> JUndefined"
    by (simp add: x WorkflowNodeSchema_def WorkflowNode_json_def z_object_def js_get_def)
qed

lemma filter_config_keys_idem:
  "filter (\<lambda>(k, v). k \<notin> set config_keys \<and> k \<noteq> ''__proto__'' \<and> v \<noteq> JUndefined)
     ([(''schedule'', a), (''webhookUrl'', b), (''eventName'', c)] @
      filter (\<lambda>(k, v). k \<notin> set config_keys \<and> k \<noteq> ''__proto__'' \<and> v \<noteq> JUndefined) kvs) =
   filter (\<lambda>(k, v). k \<notin> set config_keys \<and> k \<noteq> ''__proto__'' \<and> v \<noteq> JUndefined) kvs"
  by (simp add: config_keys_def)

lemma reparses_TriggerConfig: "reparses (TriggerConfigSchema isUrl) TriggerConfig_json"
proof (rule reparsesI)
  fix j x
  assume a: "TriggerConfigSchema isUrl j = Some x"
  then obtain kvs where j: "j = JObj kvs"
    by (cases j) (simp_all add: TriggerConfigSchema_def)
  from a obtain s w e where
    f: "z_optional z_string (js_get j ''schedule'') = Some s"
       "z_optional (z_string_url isUrl) (js_get j ''webhookUrl'') = Some w"
       "z_optional z_string (js_get j ''eventName'') = Some e" and
    x: "x = \<lparr>cfg_schedule = s, cfg_webhookUrl = w, cfg_eventName = e,
               cfg_rest = filter (\<lambda>(k, v). k \<notin> set config_keys \<and> k \<noteq> ''__proto__'' \<and>
                                          v \<noteq> JUndefined) kvs\<rparr>"
    unfolding j by (auto simp: TriggerConfigSchema_def bind_eq_Some_conv)
  note optional_reparses[OF reparses_string f(1)]
    optional_reparses[OF reparses_string_url f(2)]
    optional_reparses[OF reparses_string f(3)]
  then show "TriggerConfigSchema isUrl (TriggerConfig_json x) = Some x \<and> TriggerConfig_json x \<noteq> JUndefined"
    by (simp add: x TriggerConfigSchema_def TriggerConfig_json_def js_get_def
        filter_config_keys_idem[simplified])
qed

lemma reparses_WorkflowTrigger: "reparses (WorkflowTriggerSchema isUrl) WorkflowTrigger_json"
proof (rule reparsesI)
  fix j x
  assume "WorkflowTriggerSchema isUrl j = Some x"
  then obtain t c where
    f: "z_enum trigger_type_names (js_get j ''type'') = Some t"
       "z_optional (TriggerConfigSchema isUrl) (js_get j ''config'') = Some c" and
    x: "x = \<lparr>trig_type = t, trig_config = c\<rparr>"
    by (auto simp: WorkflowTriggerSchema_def bind_eq_Some_conv dest!: z_object_Some)
  note reparsesD[OF reparses_trigger_types f(1)]
    optional_reparses[OF reparses_TriggerConfig f(2)]
  then show "WorkflowTriggerSchema isUrl (WorkflowTrigger_json x) = Some x \<and> WorkflowTrigger_json x \<noteq> JUndefined"
    by (simp add: x WorkflowTriggerSchema_def WorkflowTrigger_json_def z_object_def js_get_def)
qed

lemma reparses_WorkflowVariable: "reparses WorkflowVariableSchema WorkflowVariable_json"
proof (rule reparsesI)
  fix j x
  assume "WorkflowVariableSchema j = Some x"
  then obtain n t d ds r where
    f: "z_string_min1 (js_get j ''name'') = Some n"
       "z_enum variable_type_names (js_get j ''type'') = Some t"
       "z_optional z_unknown (js_get j ''defaultValue'') = Some d"
       "z_optional z_string (js_get j ''description'') = Some ds"
       "z_optional z_boolean (js_get j ''required'') = Some r" and
    x: "x = \<lparr>var_name = n, var_type = t, var_defaultValue = d, var_description = ds,
               var_required = r\<rparr>"
    by (auto simp: WorkflowVariableSchema_def bind_eq_Some_conv dest!: z_object_Some)
  note reparsesD[OF reparses_string_min1 f(1)]
    reparsesD[OF reparses_variable_types f(2)]
    optional_unknown_reparses[OF f(3)]
    optional_reparses[OF reparses_string f(4)]
    optional_reparses[OF reparses_boolean f(5)]
  then show "WorkflowVariableSchema (WorkflowVariable_json x) = Some x \<and> WorkflowVariable_json x \<noteq> JUndefined"
    by (simp add: x WorkflowVariableSchema_def WorkflowVariable_json_def z_object_def js_get_def)
qed

lemma reparses_WorkflowConfigObject: "reparses (WorkflowConfigObject isUrl) WorkflowConfig_json"
proof (rule reparsesI)
  fix j x
  assume "WorkflowConfigObject isUrl j = Some x"
  then obtain i n d v ns cs t vs ts m where
    f: "z_string_min1 (js_get j ''id'') = Some i"
       "z_string_min1 (js_get j ''name'') = Some n"
       "z_optional z_string (js_get j ''description'') = Some d"
       "z_optional z_string (js_get j ''version'') = Some v"
       "z_array_min1 WorkflowNodeSchema (js_get j ''nodes'') = Some ns"
       "z_array WorkflowConnectionSchema (js_get j ''connections'') = Some cs"
       "z_optional (WorkflowTriggerSchema isUrl) (js_get j ''trigger'') = Some t"
       "z_optional (z_array WorkflowVariableSchema) (js_get j ''variables'') = Some vs"
       "z_optional (z_array z_string) (js_get j ''tags'') = Some ts"
       "z_optional z_record_unknown (js_get j ''metadata'') = Some m" and
    x: "x = \<lparr>wf_id = i, wf_name = n, wf_description = d, wf_version = v, wf_nodes = ns,
               wf_connections = cs, wf_trigger = t, wf_variables = vs, wf_tags = ts,
               wf_metadata = m\<rparr>"
    by (auto simp: WorkflowConfigObject_def bind_eq_Some_conv dest!: z_object_Some)
  note reparsesD[OF reparses_string_min1 f(1)]
    reparsesD[OF reparses_string_min1 f(2)]
    optional_reparses[OF reparses_string f(3)]
    optional_reparses[OF reparses_string f(4)]
    reparsesD[OF reparses_array_min1[OF reparses_WorkflowNode] f(5)]
    reparsesD[OF reparses_array[OF reparses_WorkflowConnection] f(6)]
    optional_reparses[OF reparses_WorkflowTrigger f(7)]
    optional_reparses[OF reparses_array[OF reparses_WorkflowVariable] f(8)]
    optional_reparses[OF reparses_array[OF reparses_string] f(9)]
    optional_reparses[OF reparses_record_unknown f(10)]
  then show "WorkflowConfigObject isUrl (WorkflowConfig_json x) = Some x \<and> WorkflowConfig_json x \<noteq> JUndefined"
    by (simp add: x WorkflowConfigObject_def WorkflowConfig_json_def z_object_def js_get_def)
qed

lemma reparses_WorkflowConfigSchema: "reparses (WorkflowConfigSchema isUrl) WorkflowConfig_json"
proof (rule reparsesI)
  fix j x
  assume "WorkflowConfigSchema isUrl j = Some x"
  then have o: "WorkflowConfigObject isUrl j = Some x" and
    r: "connections_reference_nodes x" "agent_nodes_have_agent x"
    by (auto simp: WorkflowConfigSchema_def split: option.splits if_splits)
  have "WorkflowConfigObject isUrl (WorkflowConfig_json x) = Some x"
    using reparses_WorkflowConfigObject o by (rule reparsesD)
  with r show "WorkflowConfigSchema isUrl (WorkflowConfig_json x) = Some x \<and> WorkflowConfig_json x \<noteq> JUndefined"
    by (simp add: WorkflowConfigSchema_def WorkflowConfig_json_def)
qed


lemma those_map_Some:
  "those (map p js) = Some xs \<Longrightarrow> x \<in> set xs \<Longrightarrow> \<exists>j \<in> set js. p j = Some x"
proof (induction js arbitrary: xs)
  case Nil
  then show ?case by simp
next
  case (Cons j js)
  then obtain y ys where y: "p j = Some y" and ys: "those (map p js) = Some ys" and xs: "xs = y # ys"
    by (auto split: option.splits)
  show ?case
  proof (cases "x = y")
    case True
    with y show ?thesis by simp
  next
    case False
    with Cons.prems xs have "x \<in> set ys" by simp
    with Cons.IH[OF ys] show ?thesis by auto
  qed
qed

lemma node_id_nonempty: "WorkflowNodeSchema j = Some n \<Longrightarrow> node_id n \<noteq> []"
  by (auto simp: WorkflowNodeSchema_def z_string_min1_def bind_eq_Some_conv
      split: json.splits if_splits dest!: z_object_Some)

lemma parsed_nodes:
  assumes "WorkflowConfigObject isUrl config = Some workflow"
  shows "wf_nodes workflow \<noteq> [] \<and> (\<forall>n \<in> set (wf_nodes workflow). node_id n \<noteq> [])"
proof -
  from assms obtain ns where ns: "z_array_min1 WorkflowNodeSchema (js_get config ''nodes'') = Some ns"
    and w: "wf_nodes workflow = ns"
    by (auto simp: WorkflowConfigObject_def bind_eq_Some_conv dest!: z_object_Some)
  from ns obtain js where js: "those (map WorkflowNodeSchema js) = Some ns" and "1 \<le> length ns"
    by (auto simp: z_array_min1_def z_array_def split: option.splits if_splits json.splits)
  then have l: "ns \<noteq> []" by auto
  have "node_id n \<noteq> []" if "n \<in> set ns" for n
    using those_map_Some[OF js that] node_id_nonempty by blast
  with l w show ?thesis by simp
qed

lemma validate_Success:
  "validateWorkflowConfig isUrl config = Success workflow \<longleftrightarrow>
   WorkflowConfigObject isUrl config = Some workflow \<and>
   connections_reference_nodes workflow \<and> agent_nodes_have_agent workflow"
  by (auto simp: validateWorkflowConfig_def WorkflowConfigSchema_def split: option.splits)

section \<open>The validator\<close>

text \<open>C1 as written fails: a two-node workflow whose connections form a directed cycle
  passes structural validation, \<open>detectWorkflowCycles\<close> reports the cycle, and
  \<open>validateWorkflowConfig\<close> returns the success verdict.\<close>

theorem validate_accepts_two_cycle:
  "validateWorkflowConfig every_url two_cycle_input = Success two_cycle \<and>
   detectWorkflowCycles two_cycle \<and> getWorkflowTopologicalOrder two_cycle = None"
proof -
  have p: "WorkflowConfigObject every_url two_cycle_input = Some two_cycle"
    unfolding two_cycle_input_def two_cycle_def
    by (rule parse_json_workflow) (simp_all add: parse_json_node parse_json_edge)
  have v: "connections_reference_nodes two_cycle \<and> agent_nodes_have_agent two_cycle"
    by (simp add: two_cycle_def example_defs refinement_defs)
  have d: "detectWorkflowCycles two_cycle"
    by (simp add: two_cycle_def example_defs graph_defs)
  from p v d show ?thesis
    by (simp add: validate_Success getWorkflowTopologicalOrder_def)
qed

text \<open>C1 (as amended). A workflow value that passes structural validation (every field
  parses, so the nodes are non-empty; every connection endpoint names a node; every agent
  node carries a reference) gets the success verdict with the parsed workflow as data,
  whether or not its connection graph contains a directed cycle:
  \<open>validateWorkflowConfig\<close> never calls \<open>detectWorkflowCycles\<close>.\<close>

theorem validate_ignores_cycles:
  assumes "WorkflowConfigObject isUrl config = Some workflow"
    and "connections_reference_nodes workflow"
    and "agent_nodes_have_agent workflow"
  shows "validateWorkflowConfig isUrl config = Success workflow"
  using assms by (simp add: validate_Success)

text \<open>The theorem at a workflow with one node and a connection from that node to
  itself.\<close>

theorem validate_ignores_cycles_witness:
  "WorkflowConfigObject every_url self_loop_input = Some self_loop \<and>
   connections_reference_nodes self_loop \<and> agent_nodes_have_agent self_loop \<and>
   detectWorkflowCycles self_loop \<and>
   validateWorkflowConfig every_url self_loop_input = Success self_loop"
proof -
  have p: "WorkflowConfigObject every_url self_loop_input = Some self_loop"
    unfolding self_loop_input_def self_loop_def
    by (rule parse_json_workflow) (simp_all add: parse_json_node parse_json_edge)
  have c: "connections_reference_nodes self_loop"
    by (simp add: self_loop_def example_defs refinement_defs)
  have a: "agent_nodes_have_agent self_loop"
    by (simp add: self_loop_def example_defs refinement_defs)
  have d: "detectWorkflowCycles self_loop"
    by (simp add: self_loop_def example_defs graph_defs)
  from p c a d validate_ignores_cycles[OF p c a] show ?thesis by simp
qed

text \<open>C7 as written fails: a workflow whose two nodes share the id \<open>node1\<close> gets the
  success verdict.\<close>

theorem validate_accepts_same_id:
  "validateWorkflowConfig every_url same_id_input = Success same_id \<and>
   \<not> distinct (map node_id (wf_nodes same_id))"
proof -
  have p: "WorkflowConfigObject every_url same_id_input = Some same_id"
    unfolding same_id_input_def same_id_def
    by (rule parse_json_workflow) (simp_all add: parse_json_node)
  have v: "connections_reference_nodes same_id \<and> agent_nodes_have_agent same_id"
    by (simp add: same_id_def example_defs refinement_defs)
  have d: "\<not> distinct (map node_id (wf_nodes same_id))"
    by (simp add: same_id_def example_defs)
  from p v d show ?thesis by (simp add: validate_Success)
qed

text \<open>C7 (as amended). On success the returned nodes sequence is non-empty and every
  node id in it is a non-empty string. The schema checks each node on its own, so the ids
  need not be pairwise distinct.\<close>

theorem validated_node_ids:
  assumes "validateWorkflowConfig isUrl config = Success workflow"
  shows "wf_nodes workflow \<noteq> [] \<and> (\<forall>n \<in> set (wf_nodes workflow). node_id n \<noteq> [])"
  using assms parsed_nodes[of isUrl config workflow] by (simp add: validate_Success)

text \<open>The theorem at the workflow whose two nodes share their id.\<close>

theorem validated_node_ids_witness:
  "validateWorkflowConfig every_url same_id_input = Success same_id \<and>
   wf_nodes same_id \<noteq> [] \<and> list_all (\<lambda>n. node_id n \<noteq> []) (wf_nodes same_id)"
proof -
  have p: "WorkflowConfigObject every_url same_id_input = Some same_id"
    unfolding same_id_input_def same_id_def
    by (rule parse_json_workflow) (simp_all add: parse_json_node)
  have v: "connections_reference_nodes same_id \<and> agent_nodes_have_agent same_id"
    by (simp add: same_id_def example_defs refinement_defs)
  from p v have s: "validateWorkflowConfig every_url same_id_input = Success same_id"
    by (simp add: validate_Success)
  from s validated_node_ids[OF s] show ?thesis by (simp add: list_all_iff)
qed

text \<open>C9. Validating the data of a success verdict again gives the same success verdict:
  \<open>validateWorkflowConfig (d) = {success: true, data: d}\<close> whenever
  \<open>validateWorkflowConfig (config) = {success: true, data: d}\<close>.\<close>

theorem validate_idempotent:
  assumes "validateWorkflowConfig isUrl config = Success workflow"
  shows "validateWorkflowConfig isUrl (WorkflowConfig_json workflow) = Success workflow"
proof -
  from assms have "WorkflowConfigSchema isUrl config = Some workflow"
    by (simp add: validateWorkflowConfig_def split: option.splits)
  with reparses_WorkflowConfigSchema
  have "WorkflowConfigSchema isUrl (WorkflowConfig_json workflow) = Some workflow"
    by (rule reparsesD)
  then show ?thesis by (simp add: validateWorkflowConfig_def)
qed

text \<open>The theorem at an input that carries properties the schema drops (\<open>owner\<close>,
  \<open>colour\<close>), so that the data differs from the input.\<close>

theorem validate_idempotent_witness:
  "validateWorkflowConfig every_url stripped_input = Success stripped \<and>
   WorkflowConfig_json stripped \<noteq> stripped_input \<and>
   validateWorkflowConfig every_url (WorkflowConfig_json stripped) = Success stripped"
proof -
  have p: "WorkflowConfigObject every_url stripped_input = Some stripped"
    by (simp add: stripped_input_def stripped_def example_defs schema_defs Suc_le_eq)
  have v: "connections_reference_nodes stripped \<and> agent_nodes_have_agent stripped"
    by (simp add: stripped_def example_defs refinement_defs)
  from p v have s: "validateWorkflowConfig every_url stripped_input = Success stripped"
    by (simp add: validate_Success)
  have n: "WorkflowConfig_json stripped \<noteq> stripped_input"
    by (simp add: WorkflowConfig_json_def stripped_input_def)
  from s n validate_idempotent[OF s] show ?thesis by simp
qed

section \<open>Graph analysis\<close>

text \<open>One half of the equivalence of C3 holds by the first statement of
  \<open>getWorkflowTopologicalOrder\<close>.\<close>

lemma cycle_gives_no_order:
  "detectWorkflowCycles workflow \<Longrightarrow> getWorkflowTopologicalOrder workflow = None"
  by (simp add: getWorkflowTopologicalOrder_def)

text \<open>C2. With two connections from \<open>node1\<close> to \<open>node2\<close> the connection graph has
  a connection and no directed cycle, and \<open>detectWorkflowCycles\<close> says so, yet
  \<open>getWorkflowTopologicalOrder\<close> returns null instead of an order: the adjacency
  sets hold \<open>node2\<close> once while its in-degree counts both connections, so the
  in-degree never reaches zero.\<close>

theorem no_order_for_double_edge:
  "wf_connections double_edge \<noteq> [] \<and>
   acyclic (connection_graph double_edge) \<and>
   \<not> detectWorkflowCycles double_edge \<and>
   getWorkflowTopologicalOrder double_edge = None"
proof -
  have "acyclic ({} :: (string \<times> string) set)"
    by (simp add: acyclic_def)
  then have a: "acyclic (connection_graph double_edge)"
    by (simp add: connection_graph_def double_edge_def example_defs)
  have d: "\<not> detectWorkflowCycles double_edge"
    by (simp add: double_edge_def example_defs graph_defs)
  have t: "getWorkflowTopologicalOrder double_edge = None"
    by (simp add: double_edge_def example_defs graph_defs)
  from a d t show ?thesis by (simp add: double_edge_def example_defs)
qed

text \<open>C3. A workflow that passes validation, on which \<open>detectWorkflowCycles\<close> is
  false and \<open>getWorkflowTopologicalOrder\<close> is null: a condition node whose two
  branches lead to the same node.\<close>

theorem no_cycle_and_no_order:
  "\<not> detectWorkflowCycles two_branches_one_target \<and>
   getWorkflowTopologicalOrder two_branches_one_target = None \<and>
   validateWorkflowConfig every_url (WorkflowConfig_json two_branches_one_target)
     = Success two_branches_one_target"
proof -
  have d: "\<not> detectWorkflowCycles two_branches_one_target"
    by (simp add: two_branches_one_target_def example_defs graph_defs)
  have t: "getWorkflowTopologicalOrder two_branches_one_target = None"
    by (simp add: two_branches_one_target_def example_defs graph_defs)
  have p: "WorkflowConfigObject every_url (WorkflowConfig_json two_branches_one_target)
      = Some two_branches_one_target"
    by (simp add: two_branches_one_target_def example_defs schema_defs Suc_le_eq
        WorkflowConfig_json_def WorkflowNode_json_def WorkflowConnection_json_def
        json_opt_def json_list_def json_enum_def name_in_def)
  have v: "connections_reference_nodes two_branches_one_target \<and>
      agent_nodes_have_agent two_branches_one_target"
    by (simp add: two_branches_one_target_def example_defs refinement_defs)
  from d t p v show ?thesis by (simp add: validate_Success)
qed

subsection \<open>The graph analysis on workflows without repeated ids or connections\<close>

text \<open>
  The two workflows above repeat a connection. The rest of this section shows that this
  is what it takes: \<open>detectWorkflowCycles\<close> is true exactly when the adjacency
  structure has a directed cycle, whatever the workflow, and on a workflow whose node ids
  are distinct, whose connections join nodes and where no two connections join the same
  nodes in the same direction, \<open>getWorkflowTopologicalOrder\<close> returns an order of
  all the nodes in which every connection leads forward, exactly when there is no cycle.
\<close>

text \<open>The adjacency structure: its keys are the node ids, and the neighbours of a node are
  the targets of the connections that leave it, each once.\<close>

lemma map_of_map_set: "map_of (map_set k v m) = (map_of m)(k \<mapsto> v)"
  by (induction m) (auto simp: fun_eq_iff)

lemma keys_map_set:
  "map fst (map_set k v m) = (if map_of m k = None then map fst m @ [k] else map fst m)"
  by (induction m) auto

lemma keys_fold_nodes:
  "distinct (map fst g @ map node_id ns) \<Longrightarrow>
   map fst (fold (\<lambda>node. map_set (node_id node) []) ns g) = map fst g @ map node_id ns"
proof (induction ns arbitrary: g)
  case Nil
  show ?case by simp
next
  case (Cons n ns)
  have "node_id n \<notin> fst ` set g" using Cons.prems by auto
  then have k: "map fst (map_set (node_id n) [] g) = map fst g @ [node_id n]"
    by (simp add: keys_map_set map_of_eq_None_iff)
  have "distinct (map fst (map_set (node_id n) [] g) @ map node_id ns)"
    using Cons.prems by (simp add: k)
  from Cons.IH[OF this] show ?case by (simp add: k)
qed

lemma keys_add_edge: "map fst (add_edge s t g) = map fst g"
  by (simp add: add_edge_def keys_map_set split: option.splits)

lemma keys_fold_edges:
  "map fst (fold (\<lambda>conn. add_edge (sourceId conn) (targetId conn)) cs g) = map fst g"
  by (induction cs arbitrary: g) (simp_all add: keys_add_edge)

lemma keys_buildGraph:
  "distinct (map node_id (wf_nodes w)) \<Longrightarrow> map fst (buildGraph w) = map node_id (wf_nodes w)"
  by (simp add: buildGraph_def keys_fold_edges keys_fold_nodes)

lemma neighbors_map_set:
  "neighbors (map_set k v g) u = (if u = k then v else neighbors g u)"
  by (simp add: neighbors_def map_of_map_set)

lemma neighbors_add_edge:
  "neighbors (add_edge s t g) u =
     (if u = s \<and> map_of g s \<noteq> None then set_add t (neighbors g u) else neighbors g u)"
  by (auto simp: add_edge_def neighbors_def map_of_map_set split: option.splits)

lemma neighbors_fold_nodes:
  "neighbors (fold (\<lambda>node. map_set (node_id node) []) ns []) u = []"
proof -
  have "neighbors g u = [] \<Longrightarrow> neighbors (fold (\<lambda>node. map_set (node_id node) []) ns g) u = []" for g
    by (induction ns arbitrary: g) (simp_all add: neighbors_map_set)
  then show ?thesis by (simp add: neighbors_def)
qed

lemma set_set_add: "set (set_add x s) = insert x (set s)"
  by (auto simp: set_add_def)

lemma distinct_set_add: "distinct s \<Longrightarrow> distinct (set_add x s)"
  by (auto simp: set_add_def)

lemma is_key_add_edge: "(map_of (add_edge s t g) u = None) = (map_of g u = None)"
  by (simp add: map_of_eq_None_iff keys_add_edge flip: set_map)

lemma neighbors_fold_edges:
  "set (neighbors (fold (\<lambda>conn. add_edge (sourceId conn) (targetId conn)) cs g) u) =
     set (neighbors g u) \<union> {targetId c | c. c \<in> set cs \<and> sourceId c = u \<and> map_of g u \<noteq> None}"
proof (induction cs arbitrary: g)
  case Nil
  show ?case by simp
next
  case (Cons c cs)
  show ?case
    by (auto simp: Cons.IH is_key_add_edge neighbors_add_edge set_set_add)
qed

lemma distinct_neighbors_fold_edges:
  "distinct (neighbors g u) \<Longrightarrow>
   distinct (neighbors (fold (\<lambda>conn. add_edge (sourceId conn) (targetId conn)) cs g) u)"
proof (induction cs arbitrary: g)
  case Nil
  then show ?case by simp
next
  case (Cons c cs)
  have "distinct (neighbors (add_edge (sourceId c) (targetId c) g) u)"
    using Cons.prems by (auto simp: neighbors_add_edge distinct_set_add)
  from Cons.IH[OF this] show ?case by simp
qed

lemma is_key_fold_nodes:
  "(map_of (fold (\<lambda>node. map_set (node_id node) []) ns g) u = None) =
   (map_of g u = None \<and> u \<notin> node_id ` set ns)"
  by (induction ns arbitrary: g) (auto simp: map_of_map_set)

lemma neighbors_buildGraph:
  assumes "u \<in> node_id ` set (wf_nodes w)"
  shows "set (neighbors (buildGraph w) u) = {v. (u, v) \<in> connection_graph w}"
proof -
  have k: "map_of (fold (\<lambda>node. map_set (node_id node) []) (wf_nodes w) []) u \<noteq> None"
    using assms by (simp add: is_key_fold_nodes)
  have "set (neighbors (buildGraph w) u) =
      {targetId c | c. c \<in> set (wf_connections w) \<and> sourceId c = u}"
    using k by (auto simp: buildGraph_def neighbors_fold_edges neighbors_fold_nodes)
  also have "\<dots> = {v. (u, v) \<in> connection_graph w}"
    by (force simp: connection_graph_def)
  finally show ?thesis .
qed

lemma distinct_neighbors_buildGraph: "distinct (neighbors (buildGraph w) u)"
  unfolding buildGraph_def
  by (rule distinct_neighbors_fold_edges) (simp add: neighbors_fold_nodes)

text \<open>The depth-first search. When \<open>hasCycle\<close> returns false, the recursion stack is as
  before, the node is visited, and the invariant holds again.\<close>

lemma hasCycle_sound:
  "settled g s fin \<Longrightarrow> n \<notin> set (fst s) \<Longrightarrow> hasCycle g n s = (False, s') \<Longrightarrow>
     \<exists>fin'. settled g s' fin' \<and> set (snd s') = set (snd s) \<and> insert n (set (fst s)) \<subseteq> set (fst s')"
  "settled g s fin \<Longrightarrow> hasCycle_neighbors g ms s = (False, s') \<Longrightarrow>
     \<exists>fin'. settled g s' fin' \<and> set (snd s') = set (snd s) \<and> set (fst s) \<subseteq> set (fst s') \<and>
            set ms \<subseteq> set (fst s') - set (snd s')"
proof (induction g n s and g ms s arbitrary: fin s' and fin s' rule: hasCycle_hasCycle_neighbors.induct)
  case (1 g nodeId visited recursionStack)
  obtain found v' k' where r: "hasCycle_neighbors g (neighbors g nodeId)
      (set_add nodeId visited, set_add nodeId recursionStack) = (found, (v', k'))"
    by (metis prod.exhaust)
  from "1.prems"(3) r have nf: "\<not> found" and s': "s' = (v', removeAll nodeId k')"
    by (auto split: if_splits)
  from "1.prems"(1,2) have fresh: "nodeId \<notin> set visited" "nodeId \<notin> set recursionStack"
    by (auto simp: settled_def)
  have "settled g (set_add nodeId visited, set_add nodeId recursionStack) fin"
    using "1.prems"(1) fresh by (auto simp: settled_def set_set_add)
  from "1.IH"[OF this] r nf obtain fin' where
    f: "settled g (v', k') fin'" and k: "set k' = insert nodeId (set recursionStack)"
    and v: "insert nodeId (set visited) \<subseteq> set v'"
    and n: "set (neighbors g nodeId) \<subseteq> set v' - set k'"
    by (auto simp: set_set_add)
  have "settled g s' (nodeId # fin')"
    using f k v n fresh by (auto simp: settled_def s')
  moreover have "set (snd s') = set recursionStack"
    using k fresh by (auto simp: s')
  ultimately show ?case using v by (auto simp: s')
next
  case (2 g s)
  then show ?case by auto
next
  case (3 g neighbor rest visited recursionStack)
  show ?case
  proof (cases "neighbor \<in> set visited")
    case True
    with "3.prems"(2) have ns: "neighbor \<notin> set recursionStack"
      and r: "hasCycle_neighbors g rest (visited, recursionStack) = (False, s')"
      by (auto split: if_splits)
    from "3.IH"(3)[OF _ ns "3.prems"(1) r] True obtain fin' where
      "settled g s' fin'" "set (snd s') = set recursionStack" "set visited \<subseteq> set (fst s')"
      "set rest \<subseteq> set (fst s') - set (snd s')"
      by auto
    with True ns show ?thesis by auto
  next
    case False
    obtain found s1 where r1: "hasCycle g neighbor (visited, recursionStack) = (found, s1)"
      by (metis prod.exhaust)
    from "3.prems"(2) False r1 have nf: "\<not> found"
      and r2: "hasCycle_neighbors g rest s1 = (False, s')"
      by (auto split: if_splits)
    from r1 nf have r1': "hasCycle g neighbor (visited, recursionStack) = (False, s1)"
      by simp
    from "3.IH"(1)[OF False "3.prems"(1) _ r1'] False obtain fin1 where
      f1: "settled g s1 fin1" and k1: "set (snd s1) = set recursionStack"
      and v1: "insert neighbor (set visited) \<subseteq> set (fst s1)"
      by auto
    from "3.IH"(2)[OF False r1[symmetric] nf f1 r2] obtain fin' where
      f: "settled g s' fin'" and k: "set (snd s') = set (snd s1)"
      and v: "set (fst s1) \<subseteq> set (fst s')"
      and n: "set rest \<subseteq> set (fst s') - set (snd s')"
      by auto
    have "neighbor \<notin> set recursionStack"
      using "3.prems"(1) False by (auto simp: settled_def)
    with f k k1 v v1 n show ?thesis by auto
  qed
qed

lemma detect_from_sound:
  "settled g s fin \<Longrightarrow> \<not> detect_from g keys s \<Longrightarrow>
   \<exists>s' fin'. settled g s' fin' \<and> set (snd s') = set (snd s) \<and> set keys \<union> set (fst s) \<subseteq> set (fst s')"
proof (induction keys arbitrary: s fin)
  case Nil
  then show ?case by (intro exI[of _ s] exI[of _ fin]) simp
next
  case (Cons k keys)
  obtain visited recursionStack where s: "s = (visited, recursionStack)" by (cases s)
  show ?case
  proof (cases "k \<in> set visited")
    case True
    with Cons.prems(2) have "\<not> detect_from g keys s" by (simp add: s)
    from Cons.IH[OF Cons.prems(1) this] obtain s' fin' where
      "settled g s' fin'" "set (snd s') = set (snd s)" "set keys \<union> set (fst s) \<subseteq> set (fst s')"
      by blast
    with True show ?thesis by (intro exI[of _ s'] exI[of _ fin']) (auto simp: s)
  next
    case False
    obtain found s1 where r1: "hasCycle g k s = (found, s1)" by (metis prod.exhaust)
    from Cons.prems(2) False r1 have nf: "\<not> found" and d: "\<not> detect_from g keys s1"
      by (auto simp: s split: if_splits)
    from r1 nf have r1': "hasCycle g k s = (False, s1)" by simp
    from hasCycle_sound(1)[OF Cons.prems(1) _ r1'] False obtain fin1 where
      f1: "settled g s1 fin1" and k1: "set (snd s1) = set (snd s)"
      and v1: "insert k (set (fst s)) \<subseteq> set (fst s1)"
      by (auto simp: s)
    from Cons.IH[OF f1 d] obtain s' fin' where
      "settled g s' fin'" "set (snd s') = set (snd s1)" "set keys \<union> set (fst s1) \<subseteq> set (fst s')"
      by blast
    with k1 v1 show ?thesis by (intro exI[of _ s'] exI[of _ fin']) auto
  qed
qed

lemma detect_sound:
  assumes "\<not> detectWorkflowCycles w"
  shows "\<exists>fin. topo (buildGraph w) fin \<and> fst ` set (buildGraph w) \<subseteq> set fin"
proof -
  have "settled (buildGraph w) ([], []) []" by (simp add: settled_def)
  moreover have "\<not> detect_from (buildGraph w) (map fst (buildGraph w)) ([], [])"
    using assms by (simp add: detectWorkflowCycles_def Let_def)
  ultimately have "\<exists>s' fin'. settled (buildGraph w) s' fin' \<and> set (snd s') = set (snd ([] :: string list, [] :: string list)) \<and>
      set (map fst (buildGraph w)) \<union> set (fst ([] :: string list, [] :: string list)) \<subseteq> set (fst s')"
    by (rule detect_from_sound)
  then obtain s' fin' where "settled (buildGraph w) s' fin'" "set (snd s') = {}"
    "set (map fst (buildGraph w)) \<subseteq> set (fst s')"
    by auto
  then show ?thesis by (intro exI[of _ fin']) (auto simp: settled_def)
qed

text \<open>When \<open>hasCycle\<close> returns true, a node reaches itself: every node on the recursion
  stack reaches the node the search stands on.\<close>

lemma hasCycle_complete:
  "settled g s fin \<Longrightarrow> n \<notin> set (fst s) \<Longrightarrow> (\<forall>a\<in>set (snd s). (a, n) \<in> (edges g)\<^sup>*) \<Longrightarrow>
     fst (hasCycle g n s) \<Longrightarrow> \<not> acyclic (edges g)"
  "settled g s fin \<Longrightarrow> (\<forall>a\<in>set (snd s). \<forall>m\<in>set ms. (a, m) \<in> (edges g)\<^sup>+) \<Longrightarrow>
     fst (hasCycle_neighbors g ms s) \<Longrightarrow> \<not> acyclic (edges g)"
proof (induction g n s and g ms s arbitrary: fin and fin rule: hasCycle_hasCycle_neighbors.induct)
  case (1 g nodeId visited recursionStack)
  from "1.prems"(1,2) have fresh: "nodeId \<notin> set visited" "nodeId \<notin> set recursionStack"
    by (auto simp: settled_def)
  have st: "settled g (set_add nodeId visited, set_add nodeId recursionStack) fin"
    using "1.prems"(1) fresh by (auto simp: settled_def set_set_add)
  have reach: "\<forall>a\<in>set (snd (set_add nodeId visited, set_add nodeId recursionStack)).
      \<forall>m\<in>set (neighbors g nodeId). (a, m) \<in> (edges g)\<^sup>+"
  proof (intro ballI)
    fix a m
    assume a: "a \<in> set (snd (set_add nodeId visited, set_add nodeId recursionStack))"
      and m: "m \<in> set (neighbors g nodeId)"
    from m have e: "(nodeId, m) \<in> edges g" by (simp add: edges_def)
    from a have "a = nodeId \<or> a \<in> set recursionStack" by (auto simp: set_set_add)
    then have "(a, nodeId) \<in> (edges g)\<^sup>*" using "1.prems"(3) by auto
    then show "(a, m) \<in> (edges g)\<^sup>+" using e by (rule rtrancl_into_trancl1)
  qed
  have "fst (hasCycle_neighbors g (neighbors g nodeId)
      (set_add nodeId visited, set_add nodeId recursionStack))"
    using "1.prems"(4) by (auto split: prod.splits if_splits)
  with "1.IH"[OF st reach] show ?case by blast
next
  case (2 g s)
  then show ?case by simp
next
  case (3 g neighbor rest visited recursionStack)
  have reach_rest: "\<forall>a\<in>set recursionStack. \<forall>m\<in>set rest. (a, m) \<in> (edges g)\<^sup>+"
    using "3.prems"(2) by simp
  show ?case
  proof (cases "neighbor \<in> set visited")
    case True
    show ?thesis
    proof (cases "neighbor \<in> set recursionStack")
      case True
      with "3.prems"(2) have "(neighbor, neighbor) \<in> (edges g)\<^sup>+" by simp
      then show ?thesis by (auto simp: acyclic_def)
    next
      case False
      with True "3.prems"(3) have "fst (hasCycle_neighbors g rest (visited, recursionStack))"
        by simp
      with "3.IH"(3)[OF _ False "3.prems"(1)] True reach_rest show ?thesis by simp
    qed
  next
    case False
    obtain found s1 where r1: "hasCycle g neighbor (visited, recursionStack) = (found, s1)"
      by (metis prod.exhaust)
    have reach1: "\<forall>a\<in>set (snd (visited, recursionStack)). (a, neighbor) \<in> (edges g)\<^sup>*"
      using "3.prems"(2) by (auto intro: trancl_into_rtrancl)
    show ?thesis
    proof (cases found)
      case True
      with r1 have "fst (hasCycle g neighbor (visited, recursionStack))" by simp
      with "3.IH"(1)[OF False "3.prems"(1) _ reach1] False show ?thesis by simp
    next
      case nf: False
      with r1 have r1': "hasCycle g neighbor (visited, recursionStack) = (False, s1)" by simp
      from hasCycle_sound(1)[OF "3.prems"(1) _ r1'] False obtain fin1 where
        f1: "settled g s1 fin1" and k1: "set (snd s1) = set recursionStack"
        by auto
      from "3.prems"(3) False r1 nf have "fst (hasCycle_neighbors g rest s1)"
        by simp
      with "3.IH"(2)[OF False r1[symmetric] nf f1] reach_rest k1 show ?thesis by simp
    qed
  qed
qed

lemma detect_from_complete:
  "settled g s fin \<Longrightarrow> set (snd s) = {} \<Longrightarrow> detect_from g keys s \<Longrightarrow> \<not> acyclic (edges g)"
proof (induction keys arbitrary: s fin)
  case Nil
  then show ?case by simp
next
  case (Cons k keys)
  obtain visited recursionStack where s: "s = (visited, recursionStack)" by (cases s)
  show ?case
  proof (cases "k \<in> set visited")
    case True
    with Cons.prems(3) have "detect_from g keys s" by (simp add: s)
    with Cons.IH[OF Cons.prems(1,2)] show ?thesis by simp
  next
    case False
    obtain found s1 where r1: "hasCycle g k s = (found, s1)" by (metis prod.exhaust)
    show ?thesis
    proof (cases found)
      case True
      with r1 have "fst (hasCycle g k s)" by simp
      moreover have "\<forall>a\<in>set (snd s). (a, k) \<in> (edges g)\<^sup>*" using Cons.prems(2) by simp
      ultimately show ?thesis using hasCycle_complete(1)[OF Cons.prems(1)] False
        by (simp add: s)
    next
      case nf: False
      with r1 have r1': "hasCycle g k s = (False, s1)" by simp
      from hasCycle_sound(1)[OF Cons.prems(1) _ r1'] False obtain fin1 where
        f1: "settled g s1 fin1" and k1: "set (snd s1) = set (snd s)"
        by (auto simp: s)
      from Cons.prems(3) False r1 nf have "detect_from g keys s1" by (simp add: s)
      with Cons.IH[OF f1] k1 Cons.prems(2) show ?thesis by simp
    qed
  qed
qed

lemma depth_le: "depth fin x \<le> length fin"
  by (induction fin) auto

lemma topo_depth:
  "topo g fin \<Longrightarrow> u \<in> set fin \<Longrightarrow> v \<in> set (neighbors g u) \<Longrightarrow>
     v \<in> set fin \<and> depth fin v < depth fin u"
proof (induction fin)
  case Nil
  then show ?case by simp
next
  case (Cons a fin)
  show ?case
  proof (cases "u = a")
    case True
    with Cons.prems have "v \<in> set fin" "v \<noteq> a" by auto
    with True depth_le[of fin v] show ?thesis by simp
  next
    case False
    with Cons.prems have u: "u \<in> set fin" and t: "topo g fin" by auto
    from Cons.IH[OF t u Cons.prems(3)] have v: "v \<in> set fin" and lt: "depth fin v < depth fin u"
      by auto
    from Cons.prems(1) have "a \<notin> set fin" by simp
    with v have "v \<noteq> a" by auto
    with False lt v show ?thesis by simp
  qed
qed

lemma neighbors_no_key:
  assumes "n \<notin> fst ` set g"
  shows "neighbors g n = []"
proof -
  from assms have "map_of g n = None" by (simp add: map_of_eq_None_iff)
  then show ?thesis by (simp add: neighbors_def)
qed

lemma topo_acyclic:
  assumes "topo g fin" and "fst ` set g \<subseteq> set fin"
  shows "acyclic (edges g)"
proof (rule acyclicI_order[where f = "depth fin"])
  fix u v assume "(u, v) \<in> edges g"
  then have v: "v \<in> set (neighbors g u)" by (simp add: edges_def)
  have "u \<in> fst ` set g"
  proof (rule ccontr)
    assume "u \<notin> fst ` set g"
    then have "neighbors g u = []" by (rule neighbors_no_key)
    with v show False by simp
  qed
  with assms(2) have "u \<in> set fin" by auto
  from topo_depth[OF assms(1) this v] show "depth fin v < depth fin u" by simp
qed

text \<open>\<open>detectWorkflowCycles\<close> is true exactly when the adjacency structure has a cycle.\<close>

lemma detect_iff_cycle: "detectWorkflowCycles w \<longleftrightarrow> \<not> acyclic (edges (buildGraph w))"
proof
  assume d: "detectWorkflowCycles w"
  have "settled (buildGraph w) ([], []) []" by (simp add: settled_def)
  moreover have "set (snd ([] :: string list, [] :: string list)) = {}" by simp
  moreover have "detect_from (buildGraph w) (map fst (buildGraph w)) ([], [])"
    using d by (simp add: detectWorkflowCycles_def Let_def)
  ultimately show "\<not> acyclic (edges (buildGraph w))" by (rule detect_from_complete)
next
  assume c: "\<not> acyclic (edges (buildGraph w))"
  show "detectWorkflowCycles w"
  proof (rule ccontr)
    assume "\<not> detectWorkflowCycles w"
    from detect_sound[OF this] obtain fin where
      "topo (buildGraph w) fin" "fst ` set (buildGraph w) \<subseteq> set fin" by blast
    then have "acyclic (edges (buildGraph w))" by (rule topo_acyclic)
    with c show False by simp
  qed
qed

text \<open>The sort. \<open>neighbors.forEach\<close> lowers the in-degree of each neighbour by one and
  appends the neighbours whose in-degree was one.\<close>

lemma degree_map_set: "degree_or_0 (map_set k v m) u = (if u = k then v else degree_or_0 m u)"
  by (simp add: degree_or_0_def map_of_map_set)

lemma fold_release:
  "distinct ns \<Longrightarrow> fold release ns (inDegree, queue) = (inDegree', queue') \<Longrightarrow>
     (\<forall>v. degree_or_0 inDegree' v = degree_or_0 inDegree v - (if v \<in> set ns then 1 else 0)) \<and>
     queue' = queue @ filter (\<lambda>v. degree_or_0 inDegree v = 1) ns"
proof (induction ns arbitrary: inDegree queue)
  case Nil
  then show ?case by simp
next
  case (Cons n ns)
  let ?d = "map_set n (degree_or_0 inDegree n - 1) inDegree"
  let ?q = "if degree_or_0 inDegree n = 1 then queue @ [n] else queue"
  have "release n (inDegree, queue) = (?d, ?q)"
    by (simp add: release_def Let_def)
  with Cons.prems(2) have step: "fold release ns (?d, ?q) = (inDegree', queue')"
    by simp
  from Cons.prems(1) have d: "distinct ns" and n: "n \<notin> set ns" by auto
  from Cons.IH[OF d step] have
    a: "\<forall>v. degree_or_0 inDegree' v = degree_or_0 ?d v - (if v \<in> set ns then 1 else 0)" and
    b: "queue' = ?q @ filter (\<lambda>v. degree_or_0 ?d v = 1) ns" by auto
  have "filter (\<lambda>v. degree_or_0 ?d v = 1) ns = filter (\<lambda>v. degree_or_0 inDegree v = 1) ns"
    using n by (intro filter_cong) (auto simp: degree_map_set)
  with a b n show ?case by (auto simp: degree_map_set)
qed

lemma finite_preds: "finite V \<Longrightarrow> finite (preds g V v)"
  by (simp add: preds_def)

lemma kahn_inv_step:
  assumes fin: "finite V"
    and nb: "\<forall>u\<in>V. set (neighbors g u) \<subseteq> V \<and> distinct (neighbors g u)"
    and inv: "kahn_inv g V inDegree (u # queue) result"
    and f: "fold release (neighbors g u) (inDegree, queue) = (inDegree', queue')"
  shows "kahn_inv g V inDegree' queue' (result @ [u])"
proof -
  from inv have dist: "distinct (result @ u # queue)" and sub: "set (result @ u # queue) \<subseteq> V"
    and deg: "\<And>v. v \<in> V \<Longrightarrow> degree_or_0 inDegree v = int (card (preds g V v - set result))"
    and zero: "\<And>v. v \<in> V \<Longrightarrow> v \<in> set (result @ u # queue) \<longleftrightarrow> degree_or_0 inDegree v = 0"
    and ord: "\<And>i. i < length result \<Longrightarrow> preds g V (result ! i) \<subseteq> set (take i result)"
    by (auto simp: kahn_inv_def)
  from sub have uV: "u \<in> V" by simp
  from dist have ur: "u \<notin> set result" and uq: "u \<notin> set queue" by auto
  from nb uV have nV: "set (neighbors g u) \<subseteq> V" and nd: "distinct (neighbors g u)" by auto
  from fold_release[OF nd f] have
    deg': "\<And>v. degree_or_0 inDegree' v =
        degree_or_0 inDegree v - (if v \<in> set (neighbors g u) then 1 else 0)"
    and q': "queue' = queue @ filter (\<lambda>v. degree_or_0 inDegree v = 1) (neighbors g u)"
    by auto
  have pos: "0 < card (preds g V v - set result)" if "v \<in> set (neighbors g u)" for v
  proof -
    from that uV ur have "u \<in> preds g V v - set result" by (simp add: preds_def)
    moreover have "finite (preds g V v - set result)" using fin by (simp add: finite_preds)
    ultimately show ?thesis by (auto simp: card_gt_0_iff)
  qed
  have pos_deg: "0 < degree_or_0 inDegree v" if "v \<in> set (neighbors g u)" for v
    using pos[OF that] deg[of v] nV that by auto
  have j2: "degree_or_0 inDegree' v = int (card (preds g V v - set (result @ [u])))"
    if v: "v \<in> V" for v
  proof (cases "v \<in> set (neighbors g u)")
    case True
    with uV ur have m: "u \<in> preds g V v - set result" by (simp add: preds_def)
    have "preds g V v - set (result @ [u]) = (preds g V v - set result) - {u}" by auto
    then have "card (preds g V v - set (result @ [u])) = card (preds g V v - set result) - 1"
      using m by (simp add: card_Diff_singleton)
    with pos[OF True] deg[OF v] deg'[of v] True show ?thesis by simp
  next
    case False
    then have "u \<notin> preds g V v" by (simp add: preds_def)
    then have "preds g V v - set (result @ [u]) = preds g V v - set result" by auto
    with deg[OF v] deg'[of v] False show ?thesis by simp
  qed
  have j3: "v \<in> set ((result @ [u]) @ queue') \<longleftrightarrow> degree_or_0 inDegree' v = 0"
    if v: "v \<in> V" for v
  proof (cases "v \<in> set (neighbors g u)")
    case True
    from pos_deg[OF True] zero[OF v] have "v \<notin> set (result @ u # queue)" by simp
    with True deg'[of v] show ?thesis by (auto simp: q')
  next
    case False
    with zero[OF v] deg'[of v] show ?thesis by (auto simp: q')
  qed
  have fresh: "v \<notin> set (result @ u # queue)"
    if "v \<in> set (filter (\<lambda>v. degree_or_0 inDegree v = 1) (neighbors g u))" for v
  proof -
    from that nV have "v \<in> V" "degree_or_0 inDegree v = 1" by auto
    with zero[of v] show ?thesis by simp
  qed
  have j1: "distinct ((result @ [u]) @ queue')"
    using dist nd fresh by (auto simp: q')
  have j1': "set ((result @ [u]) @ queue') \<subseteq> V"
    using sub nV by (auto simp: q')
  have pu: "preds g V u \<subseteq> set result"
  proof -
    from zero[OF uV] have "degree_or_0 inDegree u = 0" by simp
    with deg[OF uV] have "card (preds g V u - set result) = 0" by simp
    moreover have "finite (preds g V u - set result)" using fin by (simp add: finite_preds)
    ultimately show ?thesis by auto
  qed
  have j4: "preds g V ((result @ [u]) ! i) \<subseteq> set (take i (result @ [u]))"
    if "i < length (result @ [u])" for i
  proof (cases "i < length result")
    case True
    with ord[OF True] show ?thesis by (simp add: nth_append)
  next
    case False
    with that have "i = length result" by simp
    with pu show ?thesis by simp
  qed
  from j1 j1' j2 j3 j4 show ?thesis unfolding kahn_inv_def by blast
qed

text \<open>The loop keeps the invariant, so it holds of what the loop returns.\<close>

lemma kahn_inv_final:
  "finite V \<Longrightarrow> \<forall>u\<in>V. set (neighbors g u) \<subseteq> V \<and> distinct (neighbors g u) \<Longrightarrow>
   kahn_inv g V inDegree queue result \<Longrightarrow>
   \<exists>inDegree'. kahn_inv g V inDegree' [] (kahn g inDegree queue result)"
proof (induction g inDegree queue result rule: kahn.induct)
  case (1 graph inDegree result)
  then show ?case by auto
next
  case (2 graph inDegree nodeId queue result)
  obtain inDegree' queue' where
    f: "fold release (neighbors graph nodeId) (inDegree, queue) = (inDegree', queue')"
    by (metis prod.exhaust)
  have "kahn_inv graph V inDegree' queue' (result @ [nodeId])"
    using "2.prems" f by (rule kahn_inv_step)
  from "2.IH"[OF f[symmetric] "2.prems"(1,2) this] f show ?case by simp
qed

text \<open>When the queue is empty and the adjacency structure has no cycle, every node is in
  the result: a node left out that is deepest in an order of the graph has all its
  predecessors in the result, so its in-degree is zero.\<close>

lemma kahn_complete:
  assumes fin: "finite V"
    and t: "topo g fin" and sub: "V \<subseteq> set fin"
    and inv: "kahn_inv g V inDegree [] result"
  shows "set result = V"
proof (rule ccontr)
  assume ne: "set result \<noteq> V"
  let ?S = "V - set result"
  from inv have rV: "set result \<subseteq> V"
    and deg: "\<And>v. v \<in> V \<Longrightarrow> degree_or_0 inDegree v = int (card (preds g V v - set result))"
    and zero: "\<And>v. v \<in> V \<Longrightarrow> v \<in> set result \<longleftrightarrow> degree_or_0 inDegree v = 0"
    by (auto simp: kahn_inv_def)
  from ne rV have "?S \<noteq> {}" by auto
  moreover have fS: "finite ?S" using fin by simp
  ultimately have "Max (depth fin ` ?S) \<in> depth fin ` ?S" by (intro Max_in) auto
  then obtain v where v: "v \<in> ?S" and m: "depth fin v = Max (depth fin ` ?S)" by auto
  have top: "depth fin x \<le> depth fin v" if "x \<in> ?S" for x
    using that fS by (simp add: m)
  have "preds g V v \<subseteq> set result"
  proof
    fix u assume "u \<in> preds g V v"
    then have u: "u \<in> V" and e: "v \<in> set (neighbors g u)" by (auto simp: preds_def)
    from u sub have "u \<in> set fin" by auto
    from topo_depth[OF t this e] have "depth fin v < depth fin u" by simp
    with top[of u] u show "u \<in> set result" by auto
  qed
  then have "preds g V v - set result = {}" by auto
  with deg[of v] v have "degree_or_0 inDegree v = 0" by simp
  with zero[of v] v show False by simp
qed

text \<open>The two \<open>forEach\<close> loops of the sort build the adjacency structure of
  \<open>buildGraph\<close> beside the in-degrees, and the in-degree of an id is the number of
  connections that end in it.\<close>

lemma fold_init_node:
  "fold init_node ns (g, d) =
     (fold (\<lambda>node. map_set (node_id node) []) ns g, fold (\<lambda>node. map_set (node_id node) 0) ns d)"
  by (induction ns arbitrary: g d) (simp_all add: init_node_def)

lemma fold_count_connection:
  "fold count_connection cs (g, d) =
     (fold (\<lambda>conn. add_edge (sourceId conn) (targetId conn)) cs g,
      fold (\<lambda>conn d. map_set (targetId conn) (degree_or_0 d (targetId conn) + 1) d) cs d)"
  by (induction cs arbitrary: g d) (simp_all add: count_connection_def)

lemma degree_fold_count:
  "degree_or_0 (fold (\<lambda>conn d. map_set (targetId conn) (degree_or_0 d (targetId conn) + 1) d) cs d) v =
     degree_or_0 d v + int (length (filter (\<lambda>c. targetId c = v) cs))"
  by (induction cs arbitrary: d) (auto simp: degree_map_set)

lemma degree_fold_init:
  "degree_or_0 (fold (\<lambda>node. map_set (node_id node) 0) ns d) v =
     (if v \<in> node_id ` set ns then 0 else degree_or_0 d v)"
  by (induction ns arbitrary: d) (auto simp: degree_map_set)

lemma set_keys_map_set: "fst ` set (map_set k v m) = insert k (fst ` set m)"
proof -
  have "set (map fst (map_set k v m)) = insert k (set (map fst m))"
    by (auto simp: keys_map_set map_of_eq_None_iff)
  then show ?thesis by simp
qed

lemma distinct_keys_map_set: "distinct (map fst m) \<Longrightarrow> distinct (map fst (map_set k v m))"
  by (induction m) (auto simp: set_keys_map_set)

lemma keys_fold_init:
  "fst ` set (fold (\<lambda>node. map_set (node_id node) 0) ns d) = fst ` set d \<union> node_id ` set ns"
  by (induction ns arbitrary: d) (auto simp: set_keys_map_set)

lemma distinct_fold_init:
  "distinct (map fst d) \<Longrightarrow> distinct (map fst (fold (\<lambda>node. map_set (node_id node) 0) ns d))"
  by (induction ns arbitrary: d) (auto simp: distinct_keys_map_set)

lemma keys_fold_count:
  "fst ` set (fold (\<lambda>conn d. map_set (targetId conn) (degree_or_0 d (targetId conn) + 1) d) cs d) =
     fst ` set d \<union> targetId ` set cs"
  by (induction cs arbitrary: d) (auto simp: set_keys_map_set)

lemma distinct_fold_count:
  "distinct (map fst d) \<Longrightarrow>
   distinct (map fst (fold (\<lambda>conn d. map_set (targetId conn) (degree_or_0 d (targetId conn) + 1) d) cs d))"
  by (induction cs arbitrary: d) (auto simp: distinct_keys_map_set)

lemma zero_keys:
  assumes "distinct (map fst m)"
  shows "set (map fst (filter (\<lambda>(nodeId, degree). degree = 0) m)) =
     {k \<in> fst ` set m. degree_or_0 m k = 0}"
proof -
  have "(k, d) \<in> set m \<longleftrightarrow> map_of m k = Some d" for k d
    using assms by simp
  then show ?thesis
    by (force simp: degree_or_0_def split: option.splits)
qed

lemma distinct_zero_keys:
  "distinct (map fst m) \<Longrightarrow> distinct (map fst (filter (\<lambda>(nodeId, degree). degree = 0) m))"
  by (rule distinct_map_filter)

lemma count_targets:
  assumes "distinct (map (\<lambda>c. (sourceId c, targetId c)) cs)"
  shows "length (filter (\<lambda>c. targetId c = v) cs) = card {u. (u, v) \<in> set (map (\<lambda>c. (sourceId c, targetId c)) cs)}"
proof -
  from assms have d: "distinct cs" and i: "inj_on (\<lambda>c. (sourceId c, targetId c)) (set cs)"
    by (auto simp: distinct_map)
  have "inj_on sourceId (set (filter (\<lambda>c. targetId c = v) cs))"
    using i by (auto simp: inj_on_def)
  with d have "distinct (map sourceId (filter (\<lambda>c. targetId c = v) cs))"
    by (simp add: distinct_map)
  then have "length (filter (\<lambda>c. targetId c = v) cs) =
      card (set (map sourceId (filter (\<lambda>c. targetId c = v) cs)))"
    by (metis distinct_card length_map)
  also have "set (map sourceId (filter (\<lambda>c. targetId c = v) cs)) =
      {u. (u, v) \<in> set (map (\<lambda>c. (sourceId c, targetId c)) cs)}"
    by force
  finally show ?thesis .
qed

text \<open>The adjacency structure against the connection graph: a connection whose source is
  no node is left out of the structure.\<close>

lemma is_key_fold_edges:
  "(map_of (fold (\<lambda>conn. add_edge (sourceId conn) (targetId conn)) cs g) u = None) =
   (map_of g u = None)"
  by (induction cs arbitrary: g) (simp_all add: is_key_add_edge)

lemma keys_set_buildGraph: "fst ` set (buildGraph w) = node_id ` set (wf_nodes w)"
proof -
  have "(u \<in> fst ` set (buildGraph w)) = (u \<in> node_id ` set (wf_nodes w))" for u
  proof -
    have "(u \<in> fst ` set (buildGraph w)) = (map_of (buildGraph w) u \<noteq> None)"
      by (simp add: map_of_eq_None_iff)
    also have "\<dots> = (map_of (fold (\<lambda>node. map_set (node_id node) []) (wf_nodes w) ([] :: graph)) u \<noteq> None)"
      unfolding buildGraph_def by (simp add: is_key_fold_edges)
    also have "\<dots> = (u \<in> node_id ` set (wf_nodes w))"
      by (simp add: is_key_fold_nodes)
    finally show ?thesis .
  qed
  then show ?thesis by blast
qed

lemma edges_buildGraph:
  "edges (buildGraph w) = {(u, v) \<in> connection_graph w. u \<in> node_id ` set (wf_nodes w)}"
proof -
  have "(u, v) \<in> edges (buildGraph w) \<longleftrightarrow>
      (u, v) \<in> connection_graph w \<and> u \<in> node_id ` set (wf_nodes w)" for u v
  proof (cases "u \<in> node_id ` set (wf_nodes w)")
    case True
    then show ?thesis by (simp add: edges_def neighbors_buildGraph)
  next
    case False
    then have "u \<notin> fst ` set (buildGraph w)" by (simp add: keys_set_buildGraph)
    then have "neighbors (buildGraph w) u = []" by (rule neighbors_no_key)
    with False show ?thesis by (simp add: edges_def)
  qed
  then show ?thesis by auto
qed

text \<open>A cycle that is reported is a cycle of the connection graph; every cycle of the
  connection graph is reported when the sources of the connections are nodes.\<close>

lemma detected_cycle_is_cycle:
  "detectWorkflowCycles w \<Longrightarrow> \<not> acyclic (connection_graph w)"
proof
  assume d: "detectWorkflowCycles w" and a: "acyclic (connection_graph w)"
  have "edges (buildGraph w) \<subseteq> connection_graph w" by (auto simp: edges_buildGraph)
  with a have "acyclic (edges (buildGraph w))" by (rule acyclic_subset)
  with d show False by (simp add: detect_iff_cycle)
qed

lemma cycle_is_detected:
  assumes "\<forall>c\<in>set (wf_connections w). sourceId c \<in> node_id ` set (wf_nodes w)"
  shows "detectWorkflowCycles w \<longleftrightarrow> \<not> acyclic (connection_graph w)"
proof -
  have "edges (buildGraph w) = connection_graph w"
    using assms by (auto simp: edges_buildGraph connection_graph_def)
  then show ?thesis by (simp add: detect_iff_cycle)
qed

lemma degree_Nil: "degree_or_0 [] v = 0"
  by (simp add: degree_or_0_def)

text \<open>On a workflow with distinct node ids, connections between nodes and no repeated
  connection, an acyclic connection graph is given an order: every node once, every
  connection leading from an earlier node to a later one.\<close>

lemma topological_order_correct:
  assumes ids: "distinct (map node_id (wf_nodes w))"
    and ends: "\<forall>c\<in>set (wf_connections w).
        sourceId c \<in> node_id ` set (wf_nodes w) \<and> targetId c \<in> node_id ` set (wf_nodes w)"
    and single: "distinct (map (\<lambda>c. (sourceId c, targetId c)) (wf_connections w))"
    and acyc: "acyclic (connection_graph w)"
  shows "\<exists>result. getWorkflowTopologicalOrder w = Some result \<and>
      distinct result \<and> set result = node_id ` set (wf_nodes w) \<and>
      (\<forall>i<length result. \<forall>u. (u, result ! i) \<in> connection_graph w \<longrightarrow> u \<in> set (take i result))"
proof -
  define G where "G = buildGraph w"
  define V where "V = node_id ` set (wf_nodes w)"
  define D where "D = fold (\<lambda>conn d. map_set (targetId conn) (degree_or_0 d (targetId conn) + 1) d)
      (wf_connections w) (fold (\<lambda>node. map_set (node_id node) 0) (wf_nodes w) [])"
  define Q where "Q = map fst (filter (\<lambda>(nodeId, degree). degree = 0) D)"
  define R where "R = kahn G D Q []"
  from acyc have nd: "\<not> detectWorkflowCycles w" using detected_cycle_is_cycle by blast
  from detect_sound[OF nd] obtain fin where t: "topo G fin" and f: "V \<subseteq> set fin"
    by (auto simp: keys_set_buildGraph G_def V_def)
  have pair: "fold count_connection (wf_connections w) (fold init_node (wf_nodes w) ([], []))
      = (G, D)"
    by (simp add: fold_init_node fold_count_connection buildGraph_def G_def D_def)
  have finV: "finite V" by (simp add: V_def)
  have succ: "set (neighbors G u) = {v. (u, v) \<in> connection_graph w}" if "u \<in> V" for u
    using that unfolding G_def V_def by (rule neighbors_buildGraph)
  have tgt: "v \<in> V" if "(u, v) \<in> connection_graph w" for u v
    using that ends by (auto simp: connection_graph_def V_def)
  have src: "u \<in> V" if "(u, v) \<in> connection_graph w" for u v
    using that ends by (auto simp: connection_graph_def V_def)
  have nb: "\<forall>u\<in>V. set (neighbors G u) \<subseteq> V \<and> distinct (neighbors G u)"
  proof
    fix u assume u: "u \<in> V"
    have "set (neighbors G u) \<subseteq> V"
      using tgt by (auto simp: succ[OF u])
    moreover have "distinct (neighbors G u)"
      unfolding G_def by (rule distinct_neighbors_buildGraph)
    ultimately show "set (neighbors G u) \<subseteq> V \<and> distinct (neighbors G u)" by simp
  qed
  have "targetId ` set (wf_connections w) \<subseteq> V" using ends by (auto simp: V_def)
  then have keys: "fst ` set D = V"
    unfolding D_def by (auto simp: keys_fold_count keys_fold_init V_def)
  have dkeys: "distinct (map fst D)"
    unfolding D_def by (intro distinct_fold_count distinct_fold_init) simp
  have pr: "preds G V v = {u. (u, v) \<in> connection_graph w}" for v
  proof -
    have "preds G V v = {u \<in> V. (u, v) \<in> connection_graph w}"
      using succ by (auto simp: preds_def)
    also have "\<dots> = {u. (u, v) \<in> connection_graph w}"
      using src by auto
    finally show ?thesis .
  qed
  have deg: "degree_or_0 D v = int (card (preds G V v))" for v
  proof -
    have "degree_or_0 D v = int (length (filter (\<lambda>c. targetId c = v) (wf_connections w)))"
      unfolding D_def by (simp add: degree_fold_count degree_fold_init degree_Nil)
    also have "\<dots> = int (card {u. (u, v) \<in> connection_graph w})"
      using count_targets[OF single, of v] by (simp only: connection_graph_def)
    finally show ?thesis by (simp only: pr)
  qed
  have q: "set Q = {v \<in> V. degree_or_0 D v = 0}"
    using zero_keys[OF dkeys] keys by (simp only: Q_def)
  have dq: "distinct Q" unfolding Q_def using dkeys by (rule distinct_zero_keys)
  have init: "kahn_inv G V D Q []"
    unfolding kahn_inv_def using q dq deg by simp
  from kahn_inv_final[OF finV nb init] obtain d' where final: "kahn_inv G V d' [] R"
    unfolding R_def by blast
  from kahn_complete[OF finV t f final] have sR: "set R = V" .
  from final have dR: "distinct R"
    and ord: "\<And>i. i < length R \<Longrightarrow> preds G V (R ! i) \<subseteq> set (take i R)"
    by (simp_all add: kahn_inv_def)
  have "length R = card V" using distinct_card[OF dR] sR by simp
  also have "\<dots> = length (wf_nodes w)" using distinct_card[OF ids] by (simp add: V_def)
  finally have len: "length R = length (wf_nodes w)" .
  have res: "getWorkflowTopologicalOrder w = Some R"
    using nd len by (simp add: getWorkflowTopologicalOrder_def pair Let_def Q_def R_def)
  have "\<forall>i<length R. \<forall>u. (u, R ! i) \<in> connection_graph w \<longrightarrow> u \<in> set (take i R)"
  proof (intro allI impI)
    fix i u assume i: "i < length R" and e: "(u, R ! i) \<in> connection_graph w"
    from e have "u \<in> preds G V (R ! i)" by (simp add: pr)
    with ord[OF i] show "u \<in> set (take i R)" by blast
  qed
  with res dR sR show ?thesis unfolding V_def by blast
qed

text \<open>On such a workflow the sort returns null exactly when a cycle is reported.\<close>

lemma order_iff_no_cycle:
  assumes ids: "distinct (map node_id (wf_nodes w))"
    and ends: "\<forall>c\<in>set (wf_connections w).
        sourceId c \<in> node_id ` set (wf_nodes w) \<and> targetId c \<in> node_id ` set (wf_nodes w)"
    and single: "distinct (map (\<lambda>c. (sourceId c, targetId c)) (wf_connections w))"
  shows "detectWorkflowCycles w \<longleftrightarrow> getWorkflowTopologicalOrder w = None"
proof
  assume "detectWorkflowCycles w"
  then show "getWorkflowTopologicalOrder w = None"
    by (simp add: getWorkflowTopologicalOrder_def)
next
  assume n: "getWorkflowTopologicalOrder w = None"
  show "detectWorkflowCycles w"
  proof (rule ccontr)
    assume "\<not> detectWorkflowCycles w"
    with ends have "acyclic (connection_graph w)" by (simp add: cycle_is_detected)
    from topological_order_correct[OF ids ends single this] n show False by simp
  qed
qed

text \<open>The chain of three nodes is such a workflow, and the sort lists it from its source
  to its sink.\<close>

lemma chain3_order:
  "distinct (map node_id (wf_nodes chain3)) \<and>
   list_all (\<lambda>c. sourceId c \<in> node_id ` set (wf_nodes chain3) \<and>
                  targetId c \<in> node_id ` set (wf_nodes chain3)) (wf_connections chain3) \<and>
   distinct (map (\<lambda>c. (sourceId c, targetId c)) (wf_connections chain3)) \<and>
   acyclic (connection_graph chain3) \<and>
   getWorkflowTopologicalOrder chain3 = Some [''node1'', ''node2'', ''node3'']"
proof -
  have d: "\<not> detectWorkflowCycles chain3"
    by (simp add: chain3_def example_defs graph_defs)
  have s: "\<forall>c\<in>set (wf_connections chain3). sourceId c \<in> node_id ` set (wf_nodes chain3)"
    by (simp add: chain3_def example_defs)
  from d have a: "acyclic (connection_graph chain3)"
    by (simp add: cycle_is_detected[OF s])
  have t: "getWorkflowTopologicalOrder chain3 = Some [''node1'', ''node2'', ''node3'']"
    by (simp add: chain3_def example_defs graph_defs)
  from a t show ?thesis by (simp add: chain3_def example_defs)
qed



section \<open>The crew adapter\<close>

lemma crew_process_eq:
  "crew_process (mapWorkflowToCrew workflow options) =
     (case crew_opt_process options of None \<Rightarrow> determineProcessType workflow | Some p \<Rightarrow> p)"
  by (simp add: mapWorkflowToCrew_def Let_def split: prod.splits)

lemma branching_not_linear:
  assumes b: "hasBranching workflow"
    and s: "\<forall>c \<in> set (wf_connections workflow). sourceId c \<in> node_id ` set (wf_nodes workflow)"
  shows "\<not> isLinear workflow"
proof -
  from b obtain conn where c: "conn \<in> set (wf_connections workflow)"
    and m: "1 < length (filter (\<lambda>c. sourceId c = sourceId conn) (wf_connections workflow))"
    by (auto simp: hasBranching_def list_ex_iff)
  from s c obtain node where n: "node \<in> set (wf_nodes workflow)" and i: "sourceId conn = node_id node"
    by auto
  from m i have "\<not> length (filter (\<lambda>c. sourceId c = node_id node) (wf_connections workflow)) \<le> 1"
    by simp
  with n show ?thesis by (auto simp: isLinear_def list_all_iff)
qed

lemma map_filter_zip:
  "length idx = length ns \<Longrightarrow>
   List.map_filter (\<lambda>(n, i). f n) (zip ns idx) = List.map_filter f ns"
  by (induction ns idx rule: list_induct2') (auto simp: List.map_filter_simps split: option.splits)

lemma length_map_filter:
  "length (List.map_filter f xs) = length (filter (\<lambda>x. f x \<noteq> None) xs)"
  by (induction xs) (auto simp: List.map_filter_simps split: option.splits)

lemma crew_fold:
  "fold (crew_node workflow options process dependencyMap) ps (agents, tasks) = (agents', tasks') \<Longrightarrow>
   agents' = agents @ map (\<lambda>a. mapAgentToCrewAgent a options)
       (List.map_filter (\<lambda>(n, i). if node_type n = AgentNode then node_agent n else None) ps) \<and>
   map ct_agent tasks' = map ct_agent tasks @ map (\<lambda>a. ca_role (mapAgentToCrewAgent a options))
       (List.map_filter (\<lambda>(n, i). if node_type n = AgentNode then node_agent n else None) ps)"
proof (induction ps arbitrary: agents tasks)
  case Nil
  then show ?case by (simp add: List.map_filter_simps)
next
  case (Cons p ps)
  obtain n i where p: "p = (n, i)" by (cases p)
  show ?case
  proof (cases "node_type n = AgentNode \<and> node_agent n \<noteq> None")
    case True
    then obtain a where a: "node_agent n = Some a" and t: "node_type n = AgentNode" by auto
    from Cons.prems obtain task where
      "fold (crew_node workflow options process dependencyMap) ps
         (agents @ [mapAgentToCrewAgent a options], tasks @ [task]) = (agents', tasks')"
      and "ct_agent task = ca_role (mapAgentToCrewAgent a options)"
      by (simp add: p crew_node_def a t Let_def)
    from Cons.IH[OF this(1)] this(2) show ?thesis
      by (simp add: p a t List.map_filter_simps)
  next
    case False
    with Cons.prems have "fold (crew_node workflow options process dependencyMap) ps
        (agents, tasks) = (agents', tasks')"
      by (auto simp: p crew_node_def split: option.splits if_splits)
    from Cons.IH[OF this] False show ?thesis
      by (auto simp: p List.map_filter_simps split: option.splits)
  qed
qed

text \<open>When the source of every connection is a node, two connections with the same
  source give that node two outgoing connections: the test for branching adds nothing
  to the test on the degrees.\<close>

lemma determineProcessType_sequential:
  assumes "\<forall>c \<in> set (wf_connections workflow). sourceId c \<in> node_id ` set (wf_nodes workflow)"
  shows "determineProcessType workflow = Sequential \<longleftrightarrow> isLinear workflow"
  using branching_not_linear[OF _ assms] by (auto simp: determineProcessType_def)

lemma validated_sources:
  assumes "validateWorkflowConfig isUrl config = Success workflow"
  shows "\<forall>c \<in> set (wf_connections workflow). sourceId c \<in> node_id ` set (wf_nodes workflow)"
proof -
  from assms have "connections_reference_nodes workflow" by (simp add: validate_Success)
  then show ?thesis by (simp add: connections_reference_nodes_def Let_def list_all_iff)
qed

text \<open>C5. For a workflow that the validator returned, passed to \<open>mapWorkflowToCrew\<close>
  with no \<open>process\<close> option, the crew's process is sequential exactly when every node
  has at most one incoming and at most one outgoing connection, and hierarchical
  otherwise.\<close>

theorem process_sequential_iff_chain:
  assumes "validateWorkflowConfig isUrl config = Success workflow"
    and "crew_opt_process options = None"
  shows "(crew_process (mapWorkflowToCrew workflow options) = Sequential \<longleftrightarrow>
          (\<forall>n \<in> set (wf_nodes workflow).
             length (filter (\<lambda>c. targetId c = node_id n) (wf_connections workflow)) \<le> 1 \<and>
             length (filter (\<lambda>c. sourceId c = node_id n) (wf_connections workflow)) \<le> 1)) \<and>
         (crew_process (mapWorkflowToCrew workflow options) \<noteq> Sequential \<longrightarrow>
          crew_process (mapWorkflowToCrew workflow options) = Hierarchical)"
proof -
  have p: "crew_process (mapWorkflowToCrew workflow options) = determineProcessType workflow"
    using assms(2) by (simp add: crew_process_eq)
  have l: "isLinear workflow \<longleftrightarrow>
      (\<forall>n \<in> set (wf_nodes workflow).
         length (filter (\<lambda>c. targetId c = node_id n) (wf_connections workflow)) \<le> 1 \<and>
         length (filter (\<lambda>c. sourceId c = node_id n) (wf_connections workflow)) \<le> 1)"
    by (simp add: isLinear_def list_all_iff)
  have "determineProcessType workflow = Sequential \<longleftrightarrow> isLinear workflow"
    using validated_sources[OF assms(1)] by (rule determineProcessType_sequential)
  moreover have "determineProcessType workflow \<noteq> Sequential \<longrightarrow>
      determineProcessType workflow = Hierarchical"
    by (simp add: determineProcessType_def)
  ultimately show ?thesis using p l by simp
qed

text \<open>The theorem at the two workflows of the specification's scenario 6: three nodes
  in a chain, and the chain with a fourth node that the first one is also connected to.\<close>

theorem process_sequential_iff_chain_witness:
  "validateWorkflowConfig every_url chain3_input = Success chain3 \<and>
   validateWorkflowConfig every_url fan_out_input = Success fan_out \<and>
   crew_opt_process no_crew_options = None \<and>
   crew_process (mapWorkflowToCrew chain3 no_crew_options) = Sequential \<and>
   crew_process (mapWorkflowToCrew fan_out no_crew_options) = Hierarchical"
proof -
  have o: "crew_opt_process no_crew_options = None"
    by (simp add: no_crew_options_def)
  have pc: "WorkflowConfigObject every_url chain3_input = Some chain3"
    unfolding chain3_input_def chain3_def
    by (rule parse_json_workflow) (simp_all add: parse_json_node parse_json_edge)
  have "connections_reference_nodes chain3 \<and> agent_nodes_have_agent chain3"
    by (simp add: chain3_def example_defs refinement_defs)
  with pc have c: "validateWorkflowConfig every_url chain3_input = Success chain3"
    by (simp add: validate_Success)
  have pf: "WorkflowConfigObject every_url fan_out_input = Some fan_out"
    unfolding fan_out_input_def fan_out_def
    by (rule parse_json_workflow) (simp_all add: parse_json_node parse_json_edge)
  have "connections_reference_nodes fan_out \<and> agent_nodes_have_agent fan_out"
    by (simp add: fan_out_def example_defs refinement_defs)
  with pf have f: "validateWorkflowConfig every_url fan_out_input = Success fan_out"
    by (simp add: validate_Success)
  have "crew_process (mapWorkflowToCrew chain3 no_crew_options) = Sequential"
    using process_sequential_iff_chain[OF c o] by (simp add: chain3_def example_defs)
  moreover have "crew_process (mapWorkflowToCrew fan_out no_crew_options) = Hierarchical"
    using process_sequential_iff_chain[OF f o] by (simp add: fan_out_def example_defs)
  ultimately show ?thesis using o c f by simp
qed

text \<open>C6 as written fails: for a workflow whose only node is an agent-kind node with a
  bare \<open>agentId\<close>, the crew has no agent and no task.\<close>

theorem crew_skips_bare_reference:
  "map node_type (wf_nodes bare_reference) = [AgentNode] \<and>
   crew_agents (mapWorkflowToCrew bare_reference no_crew_options) = [] \<and>
   crew_tasks (mapWorkflowToCrew bare_reference no_crew_options) = []"
  by (simp add: mapWorkflowToCrew_def crew_node_def bare_reference_def example_defs Let_def)

text \<open>C6 (as amended). The crew has one agent and one task, naming that agent's role,
  for every agent-kind node that carries an inline agent descriptor, in node order. An
  agent-kind node with only a bare \<open>agentId\<close> is skipped by the guard
  \<open>if (agentConfig)\<close>, so the number of crew agents is the number of agent-kind nodes
  with an inline descriptor.\<close>

theorem crew_agents_are_inline_agents:
  "crew_agents (mapWorkflowToCrew workflow options) =
     map (\<lambda>a. mapAgentToCrewAgent a options) (inline_agents workflow) \<and>
   map ct_agent (crew_tasks (mapWorkflowToCrew workflow options)) =
     map ca_role (crew_agents (mapWorkflowToCrew workflow options)) \<and>
   length (crew_agents (mapWorkflowToCrew workflow options)) =
     length (filter (\<lambda>n. node_type n = AgentNode \<and> node_agent n \<noteq> None) (wf_nodes workflow))"
proof -
  define process where "process = (case crew_opt_process options of
      None \<Rightarrow> determineProcessType workflow | Some p \<Rightarrow> p)"
  define dependencyMap where "dependencyMap = fold add_dependency (wf_connections workflow) []"
  obtain agents tasks where f:
    "fold (crew_node workflow options process dependencyMap)
       (zip (wf_nodes workflow) [0..<length (wf_nodes workflow)]) ([], []) = (agents, tasks)"
    by (cases "fold (crew_node workflow options process dependencyMap)
       (zip (wf_nodes workflow) [0..<length (wf_nodes workflow)]) ([], [])") auto
  have r: "crew_agents (mapWorkflowToCrew workflow options) = agents"
    "crew_tasks (mapWorkflowToCrew workflow options) = tasks"
    using f by (simp_all add: mapWorkflowToCrew_def Let_def process_def dependencyMap_def)
  have z: "List.map_filter (\<lambda>(n, i). if node_type n = AgentNode then node_agent n else None)
      (zip (wf_nodes workflow) [0..<length (wf_nodes workflow)]) = inline_agents workflow"
    unfolding inline_agents_def by (rule map_filter_zip) simp
  have l: "length (inline_agents workflow) =
      length (filter (\<lambda>n. node_type n = AgentNode \<and> node_agent n \<noteq> None) (wf_nodes workflow))"
    unfolding inline_agents_def length_map_filter
    by (rule arg_cong[where f = length], rule filter_cong) auto
  from crew_fold[OF f] z l r show ?thesis by simp
qed

section \<open>The state-graph adapter\<close>

lemma fold_put_entries:
  assumes "\<And>k v m. f (k, v) m = m(k \<mapsto> v)"
  shows "fold f entries m = m ++ map_of (rev entries)"
proof (induction entries arbitrary: m)
  case Nil
  show ?case by simp
next
  case (Cons e entries)
  obtain k v where e: "e = (k, v)" by (cases e)
  have "fold f (e # entries) m = fold f entries (m(k \<mapsto> v))"
    by (simp only: e fold_Cons comp_apply assms)
  also have "\<dots> = m(k \<mapsto> v) ++ map_of (rev entries)"
    by (rule Cons.IH)
  also have "\<dots> = m ++ ([k \<mapsto> v] ++ map_of (rev entries))"
    by (rule ext) (auto simp: map_add_def split: option.splits)
  also have "[k \<mapsto> v] ++ map_of (rev entries) = map_of (rev (e # entries))"
    by (simp add: e)
  finally show ?case .
qed

lemma fromEntries_map_of: "fromEntries entries = map_of (rev entries)"
  unfolding fromEntries_def by (subst fold_put_entries) simp_all

lemma map_of_rev_last:
  assumes "(k, v) \<in> set entries"
  shows "map_of (rev entries) k = Some (snd (last (filter (\<lambda>e. fst e = k) entries)))"
  using assms
proof (induction entries rule: rev_induct)
  case Nil
  then show ?case by simp
next
  case (snoc e entries)
  then show ?case by (cases e) auto
qed

lemma branch_entries_last:
  assumes "c \<in> set out"
  shows "fromEntries (branch_entries out) (branch_key c) =
         Some (targetId (last (filter (\<lambda>c'. branch_key c' = branch_key c) out)))"
proof -
  have m: "(branch_key c, targetId c) \<in> set (branch_entries out)"
    using assms by (auto simp: branch_entries_def)
  have f: "filter (\<lambda>e. fst e = branch_key c) (branch_entries out) =
      branch_entries (filter (\<lambda>c'. branch_key c' = branch_key c) out)"
    by (simp add: branch_entries_def filter_map comp_def)
  have n: "filter (\<lambda>c'. branch_key c' = branch_key c) out \<noteq> []"
    using assms by (auto simp: filter_empty_conv)
  show ?thesis
    unfolding fromEntries_map_of map_of_rev_last[OF m] f
    using n by (simp add: branch_entries_def last_map)
qed

lemma branch_entries_dom: "dom (fromEntries (branch_entries out)) = branch_key ` set out"
  by (auto simp: fromEntries_map_of branch_entries_def dom_map_of_conv_image_fst image_iff)

lemma next_of_many:
  assumes "2 \<le> length out"
  shows "next_of out =
     (if list_ex (\<lambda>c. truthy (conn_condition c)) out
      then Some (NextConditional (fromEntries (branch_entries out)))
      else Some (NextParallel (map targetId out)))"
proof -
  from assms obtain c c' cs where "out = c # c' # cs"
    by (cases out; cases "tl out") auto
  then show ?thesis by (simp add: next_of_def)
qed

lemma lg_next_lgNode_of:
  "lg_next (lgNode_of workflow options node) = next_of (outgoingConnections workflow (node_id node))"
  by (simp add: lgNode_of_def split: NodeType.splits option.splits prod.splits)

lemma stored_nodes:
  "fold (\<lambda>node nodes. assign (node_id node) (lgNode_of workflow options node) nodes) ns m k = Some lg \<Longrightarrow>
   m k = Some lg \<or> (\<exists>n \<in> set ns. node_id n = k \<and> lg = lgNode_of workflow options n)"
  by (induction ns arbitrary: m) (fastforce simp: assign_def split: if_splits)+

lemma stored_node_present:
  "n \<in> set ns \<Longrightarrow> node_id n \<noteq> ''__proto__'' \<Longrightarrow>
   \<exists>lg. fold (\<lambda>node nodes. assign (node_id node) (lgNode_of workflow options node) nodes) ns m (node_id n) = Some lg"
proof (induction ns arbitrary: m rule: rev_induct)
  case Nil
  then show ?case by simp
next
  case (snoc x xs)
  then show ?case by (cases "node_id x = node_id n") (auto simp: assign_def)
qed

lemma lgw_nodes_eq:
  "lgw_nodes (mapWorkflowToLangGraph workflow options) =
     fold (\<lambda>node nodes. assign (node_id node) (lgNode_of workflow options node) nodes)
       (wf_nodes workflow) Map.empty"
  by (simp add: mapWorkflowToLangGraph_def Let_def)

lemma next_in_stored:
  assumes "n \<in> set (wf_nodes workflow)" and "node_id n \<noteq> ''__proto__''"
  shows "next_in (mapWorkflowToLangGraph workflow options) (node_id n) =
         next_of (outgoingConnections workflow (node_id n))"
proof -
  from stored_node_present[OF assms] obtain lg where
    s: "lgw_nodes (mapWorkflowToLangGraph workflow options) (node_id n) = Some lg"
    unfolding lgw_nodes_eq by blast
  from stored_nodes[OF s[unfolded lgw_nodes_eq]] obtain n' where
    "node_id n' = node_id n" "lg = lgNode_of workflow options n'"
    by auto
  then have "lg_next lg = next_of (outgoingConnections workflow (node_id n))"
    by (simp add: lg_next_lgNode_of)
  with s show ?thesis by (simp add: next_in_def)
qed

lemma next_in_check:
  assumes "''check'' \<notin> node_id ` set ns"
  shows "next_in (mapWorkflowToLangGraph
           (workflow_of (plain_node ''check'' ConditionNode # ns) cs) options) ''check''
         = next_of (filter (\<lambda>c. sourceId c = ''check'') cs)"
proof -
  have "next_in (mapWorkflowToLangGraph
        (workflow_of (plain_node ''check'' ConditionNode # ns) cs) options)
      (node_id (plain_node ''check'' ConditionNode)) =
    next_of (outgoingConnections (workflow_of (plain_node ''check'' ConditionNode # ns) cs)
      (node_id (plain_node ''check'' ConditionNode)))"
    by (rule next_in_stored) (simp_all add: example_defs)
  then show ?thesis by (simp add: example_defs outgoingConnections_def)
qed

lemmas next_defs = next_of_def fromEntries_def branch_entries_def branch_key_def or_else_def

text \<open>C4 as written fails twice. Of two unlabelled connections beside one labelled
  \<open>yes\<close>, only the last is in the map: \<open>default\<close> is sent to \<open>d\<close>, and the
  connection to \<open>c\<close> is lost. And a connection whose label is the empty string does
  not make the fan-out conditional: the result is the parallel array.\<close>

theorem conditional_map_keeps_last_default:
  "next_in (mapWorkflowToLangGraph yes_and_two_defaults no_chain_options) ''check'' =
     Some (NextConditional [''yes'' \<mapsto> ''b'', ''default'' \<mapsto> ''d'']) \<and>
   next_in (mapWorkflowToLangGraph empty_label no_chain_options) ''check'' =
     Some (NextParallel [''b'', ''c''])"
proof -
  have 1: "next_in (mapWorkflowToLangGraph yes_and_two_defaults no_chain_options) ''check'' =
     Some (NextConditional [''yes'' \<mapsto> ''b'', ''default'' \<mapsto> ''d''])"
    unfolding yes_and_two_defaults_def
    by (subst next_in_check) (simp_all add: example_defs next_defs)
  have 2: "next_in (mapWorkflowToLangGraph empty_label no_chain_options) ''check'' =
     Some (NextParallel [''b'', ''c''])"
    unfolding empty_label_def
    by (subst next_in_check) (simp_all add: example_defs next_defs)
  from 1 2 show ?thesis by simp
qed

text \<open>C4 (as amended). For a node with two or more outgoing connections, the \<open>next\<close>
  field of the node generated for it (which is the node stored under its id in the result,
  unless the id is \<open>__proto__\<close>) is, if some outgoing connection has a non-empty
  \<open>condition\<close>, the map whose keys are the connections' labels, \<open>default\<close> standing
  for a missing or empty label, each key sent to the target of the last outgoing
  connection with that key; and otherwise the array of all target ids in connection
  order.\<close>

theorem next_of_fan_out:
  assumes "n \<in> set (wf_nodes workflow)"
    and "2 \<le> length (outgoingConnections workflow (node_id n))"
  shows "lg_next (lgNode_of workflow options n) =
           (if list_ex (\<lambda>c. truthy (conn_condition c)) (outgoingConnections workflow (node_id n))
            then Some (NextConditional
                   (fromEntries (branch_entries (outgoingConnections workflow (node_id n)))))
            else Some (NextParallel (map targetId (outgoingConnections workflow (node_id n))))) \<and>
         dom (fromEntries (branch_entries (outgoingConnections workflow (node_id n))))
           = branch_key ` set (outgoingConnections workflow (node_id n)) \<and>
         (\<forall>c \<in> set (outgoingConnections workflow (node_id n)).
            fromEntries (branch_entries (outgoingConnections workflow (node_id n))) (branch_key c) =
            Some (targetId (last (filter (\<lambda>c'. branch_key c' = branch_key c)
                (outgoingConnections workflow (node_id n)))))) \<and>
         (node_id n \<noteq> ''__proto__'' \<longrightarrow>
            next_in (mapWorkflowToLangGraph workflow options) (node_id n) =
            lg_next (lgNode_of workflow options n))"
  using assms
  by (simp add: lg_next_lgNode_of next_of_many branch_entries_dom branch_entries_last next_in_stored)

text \<open>The theorem at the specification's scenario 5: one connection labelled \<open>yes\<close>
  and one unlabelled connection give the conditional map with the keys \<open>yes\<close> and
  \<open>default\<close>.\<close>

theorem next_of_fan_out_witness:
  "plain_node ''check'' ConditionNode \<in> set (wf_nodes yes_and_default) \<and>
   2 \<le> length (outgoingConnections yes_and_default ''check'') \<and>
   next_in (mapWorkflowToLangGraph yes_and_default no_chain_options) ''check'' =
     Some (NextConditional [''yes'' \<mapsto> ''b'', ''default'' \<mapsto> ''c''])"
proof -
  have n: "plain_node ''check'' ConditionNode \<in> set (wf_nodes yes_and_default)"
    by (simp add: yes_and_default_def example_defs)
  have i: "node_id (plain_node ''check'' ConditionNode) = ''check''"
    by (simp add: plain_node_def)
  have l: "2 \<le> length (outgoingConnections yes_and_default
      (node_id (plain_node ''check'' ConditionNode)))"
    by (simp add: yes_and_default_def example_defs outgoingConnections_def)
  have o: "outgoingConnections yes_and_default ''check'' =
      [edge ''conn1'' ''check'' ''b'' (Some ''yes''), edge ''conn2'' ''check'' ''c'' None]"
    by (simp add: yes_and_default_def example_defs outgoingConnections_def)
  have "next_in (mapWorkflowToLangGraph yes_and_default no_chain_options) ''check'' =
      Some (NextConditional [''yes'' \<mapsto> ''b'', ''default'' \<mapsto> ''c''])"
    using next_of_fan_out[OF n l, of no_chain_options]
    by (simp add: i o edge_def next_defs)
  with n l show ?thesis by (simp add: i)
qed

text \<open>C10. The state description of the result maps \<open>input\<close> and \<open>output\<close> to the
  type \<open>string\<close> and to the empty string as default, also when the workflow declares a
  variable of that name with another type or default: the two implicit fields are written
  after the declared variables.\<close>

theorem implicit_state_fields_win:
  assumes "wf_variables workflow = Some variables"
    and "v \<in> set variables"
    and "var_name v = ''input'' \<or> var_name v = ''output''"
  shows "state_schema (lgw_state (mapWorkflowToLangGraph workflow options)) (var_name v)
           = Some (JStr ''string'') \<and>
         state_default (lgw_state (mapWorkflowToLangGraph workflow options)) (var_name v)
           = Some (JStr '''')"
  using assms(3) by (auto simp: mapWorkflowToLangGraph_def Let_def)

text \<open>The theorem at a workflow that declares \<open>input\<close> as a number with default 5,
  next to a variable \<open>count\<close>, which keeps its declared type and default.\<close>

theorem implicit_state_fields_win_witness:
  "wf_variables declares_input = Some [variable ''input'' VNumber (Some (JNum (Fin 5))),
                                       variable ''count'' VNumber (Some (JNum (Fin 0)))] \<and>
   var_name (variable ''input'' VNumber (Some (JNum (Fin 5)))) = ''input'' \<and>
   state_schema (lgw_state (mapWorkflowToLangGraph declares_input no_chain_options)) ''input''
     = Some (JStr ''string'') \<and>
   state_default (lgw_state (mapWorkflowToLangGraph declares_input no_chain_options)) ''input''
     = Some (JStr '''') \<and>
   state_schema (lgw_state (mapWorkflowToLangGraph declares_input no_chain_options)) ''count''
     = Some (JStr ''number'') \<and>
   state_default (lgw_state (mapWorkflowToLangGraph declares_input no_chain_options)) ''count''
     = Some (JNum (Fin 0))"
proof -
  have w: "wf_variables declares_input = Some [variable ''input'' VNumber (Some (JNum (Fin 5))),
      variable ''count'' VNumber (Some (JNum (Fin 0)))]"
    by (simp add: declares_input_def workflow_of_def)
  have m: "variable ''input'' VNumber (Some (JNum (Fin 5))) \<in>
      set [variable ''input'' VNumber (Some (JNum (Fin 5))), variable ''count'' VNumber (Some (JNum (Fin 0)))]"
    by simp
  have i: "var_name (variable ''input'' VNumber (Some (JNum (Fin 5)))) = ''input''"
    by (simp add: variable_def)
  have c: "state_schema (lgw_state (mapWorkflowToLangGraph declares_input no_chain_options)) ''count''
        = Some (JStr ''number'') \<and>
      state_default (lgw_state (mapWorkflowToLangGraph declares_input no_chain_options)) ''count''
        = Some (JNum (Fin 0))"
    by (simp add: mapWorkflowToLangGraph_def Let_def w declare_variable_def variable_def assign_def
        name_in_def variable_type_names_def)
  from implicit_state_fields_win[OF w m, of no_chain_options] i w c show ?thesis by simp
qed


section \<open>The node/edge adapter\<close>

lemma find_in_set: "find P xs = Some x \<Longrightarrow> x \<in> set xs"
  by (induction xs) (auto split: if_splits)

lemma emitted_snoc_unresolved:
  "\<not> resolvable nodes conn \<Longrightarrow> emitted nodes (conns @ [conn]) = emitted nodes conns"
  by (rule ext) (auto simp: emitted_def resolvable_def split: option.splits)

lemma outputs_of_snoc_unresolved:
  "\<not> resolvable nodes conn \<Longrightarrow> outputs_of nodes (conns @ [conn]) = outputs_of nodes conns"
  by (rule ext) (simp add: outputs_of_def emitted_snoc_unresolved)

lemma connect_outputs:
  assumes names: "\<forall>n \<in> set nodes. n8n_name n \<notin> set object_prototype_names"
  shows "connect nodes conn (outputs_of nodes conns) = Inr (outputs_of nodes (conns @ [conn]))"
proof (cases "find (names_node (sourceId conn)) nodes")
  case None
  then have "\<not> resolvable nodes conn" by (simp add: resolvable_def)
  then show ?thesis using None by (simp add: connect_def outputs_of_snoc_unresolved)
next
  case (Some fromNode)
  note f = this
  show ?thesis
  proof (cases "find (names_node (targetId conn)) nodes")
    case None
    then have "\<not> resolvable nodes conn" by (simp add: resolvable_def)
    then show ?thesis using f None by (simp add: connect_def outputs_of_snoc_unresolved)
  next
    case (Some toNode)
    have p: "n8n_name fromNode \<notin> set object_prototype_names"
      using names find_in_set[OF f] by blast
    let ?c = "\<lparr>nc_node = n8n_name toNode, nc_type = ''main'', nc_index = 0\<rparr>"
    have e: "emitted nodes (conns @ [conn]) =
        (\<lambda>k. emitted nodes conns k @ (if n8n_name fromNode = k then [?c] else []))"
      by (rule ext) (simp add: emitted_def f Some)
    have "outputs_of nodes (conns @ [conn]) =
        (outputs_of nodes conns)(n8n_name fromNode \<mapsto>
           push_connection ?c (case outputs_of nodes conns (n8n_name fromNode) of
                                 None \<Rightarrow> [[]] | Some main \<Rightarrow> main))"
      by (rule ext) (simp add: outputs_of_def e push_connection_def)
    then show ?thesis using f Some p
      by (simp add: connect_def Let_def split: option.splits)
  qed
qed

lemma build_connections_outputs:
  assumes "\<forall>n \<in> set nodes. n8n_name n \<notin> set object_prototype_names"
  shows "build_connections nodes conns (outputs_of nodes seen) = Inr (outputs_of nodes (seen @ conns))"
proof (induction conns arbitrary: seen)
  case Nil
  show ?case by simp
next
  case (Cons conn conns)
  show ?case using Cons.IH[of "seen @ [conn]"] by (simp add: connect_outputs[OF assms])
qed

lemma outputs_of_Nil: "outputs_of nodes [] = Map.empty"
  by (rule ext) (simp add: outputs_of_def emitted_def)

lemma emitted_filter_resolvable:
  "emitted nodes (filter (resolvable nodes) conns) = emitted nodes conns"
  by (rule ext, induction conns) (auto simp: emitted_def resolvable_def split: option.splits)

lemma outputs_of_filter_resolvable:
  "outputs_of nodes (filter (resolvable nodes) conns) = outputs_of nodes conns"
  by (rule ext) (simp add: outputs_of_def emitted_filter_resolvable)

lemma mapWorkflowToN8n_connections:
  assumes "\<forall>node \<in> set (wf_nodes workflow).
      n8n_name (n8nNode_of workflow node) \<notin> set object_prototype_names"
  shows "\<exists>r. mapWorkflowToN8n workflow options = Inr r \<and>
      n8nw_nodes r = map (n8nNode_of workflow) (wf_nodes workflow) \<and>
      n8nw_connections r = outputs_of (n8nw_nodes r) (wf_connections workflow) \<and>
      n8nw_connections r =
        outputs_of (n8nw_nodes r) (filter (resolvable (n8nw_nodes r)) (wf_connections workflow))"
proof -
  let ?nodes = "map (n8nNode_of workflow) (wf_nodes workflow)"
  have n: "\<forall>n \<in> set ?nodes. n8n_name n \<notin> set object_prototype_names"
    using assms by auto
  have "build_connections ?nodes (wf_connections workflow) Map.empty =
      Inr (outputs_of ?nodes (wf_connections workflow))"
    using build_connections_outputs[OF n, of "wf_connections workflow" "[]"]
    by (simp add: outputs_of_Nil)
  then show ?thesis
    by (simp add: mapWorkflowToN8n_def Let_def outputs_of_filter_resolvable)
qed

lemmas n8n_defs = mapWorkflowToN8n_def n8nNode_of_def mapAgentToN8nNode_def connect_def
  names_node_def object_prototype_names_def push_connection_def or_str_def or_else_def or_bool_def

text \<open>A workflow with a dangling source and no such name: the connection from
  \<open>missing\<close> leaves no trace, the other one is emitted.\<close>

lemma n8n_skips_missing_endpoint:
  "map_sum id n8nw_connections (mapWorkflowToN8n one_missing no_n8n_options) =
     Inr [''Agent node1'' \<mapsto> [[\<lparr>nc_node = ''End done'', nc_type = ''main'', nc_index = 0\<rparr>]]]"
  by (simp add: one_missing_def example_defs n8n_defs Let_def)

text \<open>C8. A connection whose \<open>sourceId\<close> or \<open>targetId\<close> names no generated node is
  skipped without raising, and the connections that resolve are emitted, as long as no
  source node's name is the name of a property that every object inherits
  (\<open>mapWorkflowToN8n_connections\<close> above). With an inline agent named
  \<open>constructor\<close> the function raises: \<open>connections[fromName]\<close> reads the inherited
  \<open>Object.prototype.constructor\<close>, which is truthy, so the entry is not initialised and
  \<open>connections[fromName].main.length\<close> reads \<open>length\<close> of \<open>undefined\<close>. The workflow
  below has one connection with a dangling source and one that resolves.\<close>

theorem n8n_raises_on_constructor:
  "resolvable (map (n8nNode_of constructor_agent) (wf_nodes constructor_agent))
     (edge ''conn2'' ''constructor'' ''done'' None) \<and>
   \<not> resolvable (map (n8nNode_of constructor_agent) (wf_nodes constructor_agent))
     (edge ''conn1'' ''missing'' ''done'' None) \<and>
   mapWorkflowToN8n constructor_agent no_n8n_options = Inl TypeError"
  by (simp add: constructor_agent_def example_defs inline_node_def minimal_agent_def n8n_defs
      resolvable_def Let_def)

end
